theory Spec2Isabelle
  imports Complex_Main "HOL-Library.Sublist"
begin

section \<open>JavaScript text and values\<close>

text \<open>
  Text is a \<^typ>\<open>string\<close>: the UTF-8 bytes of the JavaScript string, so an ASCII character
  is one \<^typ>\<open>char\<close> and any other character is its multi-byte sequence. The decoders only
  look for ASCII text (\<open>\n\<close>, \<open>event:\<close>, \<open>data:\<close>) and for the white space of the regular
  expression class \<open>\s\<close>, and UTF-8 never reuses the bytes of one character inside another,
  so \<open>split\<close>, \<open>startsWith\<close>, \<open>slice\<close> after an ASCII prefix, \<open>replace\<close> and \<open>join\<close> act on the
  bytes as they act on the characters. Bytes off the wire are \<^typ>\<open>char\<close>s as well.
\<close>

type_synonym byte = char

definition nl :: char where
  "nl = CHR ''\<newline>''"

text \<open>
  \<open>s.split(sep)\<close> for a separator that is not empty: the pieces between the occurrences of
  \<open>sep\<close>, found from the left without overlap. The result is never empty; the last piece
  is the text after the last occurrence found.
\<close>

function js_split :: "string \<Rightarrow> string \<Rightarrow> string list" where
  "js_split sep s =
     (if s = [] then [[]]
      else if sep \<noteq> [] \<and> prefix sep s then [] # js_split sep (drop (length sep) s)
      else (let ps = js_split sep (tl s) in (hd s # hd ps) # tl ps))"
  by pat_completeness auto
termination
  by (relation "measure (\<lambda>(sep, s). length s)") (auto simp: neq_Nil_conv)

declare js_split.simps [simp del]

text \<open>\<open>xs.join(sep)\<close>.\<close>

fun js_join :: "string \<Rightarrow> string list \<Rightarrow> string" where
  "js_join sep [] = []"
| "js_join sep [x] = x"
| "js_join sep (x # y # ys) = x @ sep @ js_join sep (y # ys)"

text \<open>
  The characters of the class \<open>\s\<close>, each as its UTF-8 bytes: tab, line feed, vertical tab,
  form feed, carriage return, space, U+00A0, U+1680, U+2000 to U+200A, U+2028, U+2029,
  U+202F, U+205F, U+3000 and U+FEFF.
\<close>

definition js_whitespace :: "string list" where
  "js_whitespace =
     [[CHR 0x09], [CHR 0x0A], [CHR 0x0B], [CHR 0x0C], [CHR 0x0D], [CHR 0x20],
      [CHR 0xC2, CHR 0xA0],
      [CHR 0xE1, CHR 0x9A, CHR 0x80],
      [CHR 0xE2, CHR 0x80, CHR 0x80], [CHR 0xE2, CHR 0x80, CHR 0x81],
      [CHR 0xE2, CHR 0x80, CHR 0x82], [CHR 0xE2, CHR 0x80, CHR 0x83],
      [CHR 0xE2, CHR 0x80, CHR 0x84], [CHR 0xE2, CHR 0x80, CHR 0x85],
      [CHR 0xE2, CHR 0x80, CHR 0x86], [CHR 0xE2, CHR 0x80, CHR 0x87],
      [CHR 0xE2, CHR 0x80, CHR 0x88], [CHR 0xE2, CHR 0x80, CHR 0x89],
      [CHR 0xE2, CHR 0x80, CHR 0x8A],
      [CHR 0xE2, CHR 0x80, CHR 0xA8], [CHR 0xE2, CHR 0x80, CHR 0xA9],
      [CHR 0xE2, CHR 0x80, CHR 0xAF],
      [CHR 0xE2, CHR 0x81, CHR 0x9F],
      [CHR 0xE3, CHR 0x80, CHR 0x80],
      [CHR 0xEF, CHR 0xBB, CHR 0xBF]]"

text \<open>What is left of \<open>s\<close> once the regular expression \<open>^\s*\<close> has matched: the leading white space is gone.\<close>

function strip_space :: "string \<Rightarrow> string" where
  "strip_space s =
     (case find (\<lambda>w. w \<noteq> [] \<and> prefix w s) js_whitespace of
        None \<Rightarrow> s
      | Some w \<Rightarrow> strip_space (drop (length w) s))"
  by pat_completeness auto
termination
proof (relation "measure length")
  show "wf (measure length)" by simp
next
  fix s :: string and w :: string
  assume "find (\<lambda>w. w \<noteq> [] \<and> prefix w s) js_whitespace = Some w"
  then have "w \<noteq> [] \<and> prefix w s"
    by (auto simp: find_Some_iff)
  then show "(drop (length w) s, s) \<in> measure length"
    by (cases s) (auto simp: prefix_def)
qed

declare strip_space.simps [simp del]

text \<open>
  A value that \<open>JSON.parse\<close> returns. A number is kept by its value, negative zero as zero:
  the client passes numbers on and, in one place, tests one for truthiness. An object is the
  list of its properties, each key once.
\<close>

datatype jsnum = Num rat | Infinity | NegInfinity

datatype json =
    JNull
  | JBool bool
  | JNum jsnum
  | JStr string
  | JArr "json list"
  | JObj "(string \<times> json) list"

text \<open>
  \<open>JSON.parse\<close> is the platform's: every definition below takes it as the parameter
  \<open>parse\<close>, \<open>None\<close> where \<open>JSON.parse\<close> throws its \<open>SyntaxError\<close>.
\<close>

type_synonym json_parse = "string \<Rightarrow> json option"

text \<open>Truthiness, as \<open>||\<close> and \<open>&&\<close> test it; \<open>None\<close> is \<open>undefined\<close>.\<close>

fun truthy :: "json option \<Rightarrow> bool" where
  "truthy None = False"
| "truthy (Some JNull) = False"
| "truthy (Some (JBool b)) = b"
| "truthy (Some (JNum n)) = (n \<noteq> Num 0)"
| "truthy (Some (JStr s)) = (s \<noteq> [])"
| "truthy (Some (JArr _)) = True"
| "truthy (Some (JObj _)) = True"

text \<open>
  An exception: \<open>Error v\<close> is \<open>new Error(v)\<close>, whose message is \<open>v\<close> as a string;
  \<open>TypeError\<close> is what reading a property of \<open>null\<close> throws.
\<close>

datatype js_error = Error json | TypeError

text \<open>\<open>`${n}`\<close> for a number that is a natural number: its decimal digits.\<close>

fun show_nat :: "nat \<Rightarrow> string" where
  "show_nat n =
     (if n < 10 then [''0123456789'' ! n]
      else show_nat (n div 10) @ [''0123456789'' ! (n mod 10)])"

declare show_nat.simps [simp del]

section \<open>The response of \<open>fetch\<close> and the text decoder\<close>

text \<open>
  The fields of the \<open>Response\<close> that the two clients read: \<open>ok\<close>, \<open>status\<close>, the text that
  \<open>text()\<close> resolves to (\<open>json()\<close> is \<open>JSON.parse\<close> of it), and \<open>body\<close>, \<open>None\<close> when there
  is none and otherwise the chunks of bytes that \<open>read()\<close> delivers before the stream closes.
\<close>

record response =
  ok :: bool
  status :: nat
  text_of :: string
  body :: "byte list list option"

text \<open>
  \<open>TextDecoder\<close> and \<open>TextDecoderStream\<close> are the platform's. A decoder reads its input
  a byte at a time and keeps its state from one chunk to the next (\<open>decode(value, {stream: true})\<close>,
  and every chunk of a \<open>TextDecoderStream\<close>): \<open>d_step\<close> is that step, with the text it gives
  out, and \<open>d_flush\<close> is the text given out when the input ends.
\<close>

record 's text_decoder =
  d_init :: 's
  d_step :: "'s \<Rightarrow> byte \<Rightarrow> 's \<times> string"
  d_flush :: "'s \<Rightarrow> string"

fun d_feed :: "'s text_decoder \<Rightarrow> 's \<Rightarrow> byte list \<Rightarrow> 's \<times> string" where
  "d_feed dec st [] = (st, [])"
| "d_feed dec st (b # bs) =
     (let (st1, out1) = d_step dec st b;
          (st2, out2) = d_feed dec st1 bs
      in (st2, out1 @ out2))"

text \<open>
  \<open>response.body.pipeThrough(new TextDecoderStream())\<close>: the string chunks that the reader
  receives. A chunk whose decoded text is empty is not enqueued, and neither is an empty flush.
\<close>

fun decode_chunks :: "'s text_decoder \<Rightarrow> 's \<Rightarrow> byte list list \<Rightarrow> string list" where
  "decode_chunks dec st [] = (let out = d_flush dec st in if out = [] then [] else [out])"
| "decode_chunks dec st (c # cs) =
     (let (st1, out) = d_feed dec st c
      in (if out = [] then [] else [out]) @ decode_chunks dec st1 cs)"

section \<open>\<open>MessagesAPI.stream\<close>\<close>

record event =
  ev_type :: string
  ev_data :: json

text \<open>
  One line of a frame: an \<open>event:\<close> line sets \<open>eventType\<close>, a \<open>data:\<close> line is pushed on
  \<open>dataLines\<close>, each without its prefix and the white space after it; any other line is skipped.
  \<open>eventType\<close> starts as \<open>undefined\<close>, here \<open>None\<close>.
\<close>

definition scan_line :: "string \<Rightarrow> string option \<times> string list \<Rightarrow> string option \<times> string list" where
  "scan_line line acc =
     (case acc of (eventType, dataLines) \<Rightarrow>
        if prefix ''event:'' line then (Some (strip_space (drop 6 line)), dataLines)
        else if prefix ''data:'' line then (eventType, dataLines @ [strip_space (drop 5 line)])
        else (eventType, dataLines))"

text \<open>\<open>eventType || 'content'\<close>: an undefined or empty type gives \<open>content\<close>.\<close>

definition or_content :: "string option \<Rightarrow> string" where
  "or_content eventType =
     (case eventType of None \<Rightarrow> ''content'' | Some t \<Rightarrow> if t = [] then ''content'' else t)"

text \<open>
  The body of the loop over \<open>chunks\<close>: what one frame yields, if anything, and whether the
  generator returns after it (\<open>eventType === 'done'\<close>).
\<close>

definition frame_event :: "json_parse \<Rightarrow> string \<Rightarrow> (event \<times> bool) option" where
  "frame_event parse chunk =
     (case fold scan_line (js_split [nl] chunk) (None, []) of (eventType, dataLines) \<Rightarrow>
        if dataLines \<noteq> [] then
          (let rawData = js_join [nl] dataLines;
               data = (case parse rawData of
                         Some v \<Rightarrow> v
                       | None \<Rightarrow> JObj [(''raw'', JStr rawData)])
           in Some (\<lparr>ev_type = or_content eventType, ev_data = data\<rparr>, eventType = Some ''done''))
        else None)"

text \<open>The loop over \<open>chunks\<close>: the events yielded, and whether the generator has returned.\<close>

fun run_frames :: "json_parse \<Rightarrow> string list \<Rightarrow> event list \<times> bool" where
  "run_frames parse [] = ([], False)"
| "run_frames parse (chunk # chunks) =
     (case frame_event parse chunk of
        None \<Rightarrow> run_frames parse chunks
      | Some (e, stop) \<Rightarrow>
          if stop then ([e], True)
          else (case run_frames parse chunks of (es, stopped) \<Rightarrow> (e # es, stopped)))"

text \<open>
  One turn of the \<open>while\<close> loop for a value read: the new buffer (\<open>chunks.pop()\<close>, which is
  never \<open>undefined\<close>: \<open>split\<close> gives at least one piece) and the run over the other pieces.
\<close>

definition stream_step :: "json_parse \<Rightarrow> string \<Rightarrow> string \<Rightarrow> (event list \<times> bool) \<times> string" where
  "stream_step parse buffer v =
     (let chunks = js_split [nl, nl] (buffer @ v)
      in (run_frames parse (butlast chunks), last chunks))"

fun stream_loop :: "json_parse \<Rightarrow> string \<Rightarrow> string list \<Rightarrow> event list" where
  "stream_loop parse buffer [] = []"
| "stream_loop parse buffer (v # vs) =
     (case stream_step parse buffer v of ((es, stopped), buffer') \<Rightarrow>
        if stopped then es else es @ stream_loop parse buffer' vs)"

text \<open>The value of \<open>buffer\<close> at the end of each turn of the \<open>while\<close> loop that runs.\<close>

fun stream_buffers :: "json_parse \<Rightarrow> string \<Rightarrow> string list \<Rightarrow> string list" where
  "stream_buffers parse buffer [] = []"
| "stream_buffers parse buffer (v # vs) =
     (case stream_step parse buffer v of ((es, stopped), buffer') \<Rightarrow>
        buffer' # (if stopped then [] else stream_buffers parse buffer' vs))"

text \<open>
  \<open>MessagesAPI.stream\<close>: the error thrown before anything is yielded, or the events yielded
  until the generator returns.
\<close>

definition stream :: "'s text_decoder \<Rightarrow> json_parse \<Rightarrow> response \<Rightarrow> js_error + event list" where
  "stream dec parse resp =
     (if \<not> ok resp then
        Inl (Error (JStr (''Stream request failed: '' @ show_nat (status resp) @ '' '' @ text_of resp)))
      else (case body resp of
              None \<Rightarrow> Inl (Error (JStr ''No response body for streaming''))
            | Some cs \<Rightarrow> Inr (stream_loop parse [] (decode_chunks dec (d_init dec) cs))))"

section \<open>\<open>NimbleBrain.streamMessage\<close>\<close>

text \<open>
  The loop over \<open>lines\<close>, from the current event type: the events yielded and the event type
  at the end. A \<open>data: \<close> line whose text does not parse yields nothing.
\<close>

fun streamMessage_lines :: "json_parse \<Rightarrow> string \<Rightarrow> string list \<Rightarrow> event list \<times> string" where
  "streamMessage_lines parse currentEventType [] = ([], currentEventType)"
| "streamMessage_lines parse currentEventType (line # lines) =
     (if prefix ''event: '' line then streamMessage_lines parse (drop 7 line) lines
      else if prefix ''data: '' line \<and> currentEventType \<noteq> [] then
        (case parse (drop 6 line) of
           Some data \<Rightarrow>
             (case streamMessage_lines parse currentEventType lines of (es, t) \<Rightarrow>
                (\<lparr>ev_type = currentEventType, ev_data = data\<rparr> # es, t))
         | None \<Rightarrow> streamMessage_lines parse currentEventType lines)
      else streamMessage_lines parse currentEventType lines)"

text \<open>
  One turn of the \<open>while\<close> loop: the state is the decoder's state, \<open>buffer\<close> and
  \<open>currentEventType\<close>. \<open>lines.pop() || ''\<close> is the last piece.
\<close>

definition streamMessage_step ::
  "'s text_decoder \<Rightarrow> json_parse \<Rightarrow> 's \<times> string \<times> string \<Rightarrow> byte list \<Rightarrow> event list \<times> ('s \<times> string \<times> string)" where
  "streamMessage_step dec parse state v =
     (case state of (st, buffer, currentEventType) \<Rightarrow>
        (case d_feed dec st v of (st', text) \<Rightarrow>
           (let lines = js_split [nl] (buffer @ text)
            in (case streamMessage_lines parse currentEventType (butlast lines) of (es, t) \<Rightarrow>
                  (es, (st', last lines, t))))))"

fun streamMessage_loop ::
  "'s text_decoder \<Rightarrow> json_parse \<Rightarrow> 's \<times> string \<times> string \<Rightarrow> byte list list \<Rightarrow> event list" where
  "streamMessage_loop dec parse state [] = []"
| "streamMessage_loop dec parse state (v # vs) =
     (case streamMessage_step dec parse state v of (es, state') \<Rightarrow>
        es @ streamMessage_loop dec parse state' vs)"

text \<open>The value of \<open>buffer\<close> at the end of each turn of the \<open>while\<close> loop.\<close>

fun streamMessage_buffers ::
  "'s text_decoder \<Rightarrow> json_parse \<Rightarrow> 's \<times> string \<times> string \<Rightarrow> byte list list \<Rightarrow> string list" where
  "streamMessage_buffers dec parse state [] = []"
| "streamMessage_buffers dec parse state (v # vs) =
     (case streamMessage_step dec parse state v of (es, state') \<Rightarrow>
        fst (snd state') # streamMessage_buffers dec parse state' vs)"

text \<open>\<open>v.error\<close> and \<open>v.message\<close> for a parsed value \<open>v\<close> that is not \<open>null\<close>; \<open>None\<close> is \<open>undefined\<close>.\<close>

fun get_prop :: "json \<Rightarrow> string \<Rightarrow> json option" where
  "get_prop (JObj kvs) k = map_of kvs k"
| "get_prop _ k = None"

text \<open>
  \<open>new Error(error.error || error.message || `HTTP ${response.status}`)\<close> for the value
  \<open>error\<close> and the status; reading \<open>error.error\<close> throws when \<open>error\<close> is \<open>null\<close>.
\<close>

definition rejection :: "json \<Rightarrow> nat \<Rightarrow> js_error" where
  "rejection error st =
     (if error = JNull then TypeError
      else if truthy (get_prop error ''error'') then Error (the (get_prop error ''error''))
      else if truthy (get_prop error ''message'') then Error (the (get_prop error ''message''))
      else Error (JStr (''HTTP '' @ show_nat st)))"

text \<open>
  The error of a response that is not \<open>ok\<close>: \<open>error\<close> is what \<open>response.json()\<close>
  resolves to, or \<open>{error: 'Unknown error'}\<close> when it rejects.
\<close>

definition streamMessage_error :: "json_parse \<Rightarrow> response \<Rightarrow> js_error" where
  "streamMessage_error parse resp =
     rejection (case parse (text_of resp) of
                  Some v \<Rightarrow> v
                | None \<Rightarrow> JObj [(''error'', JStr ''Unknown error'')])
       (status resp)"

definition streamMessage :: "'s text_decoder \<Rightarrow> json_parse \<Rightarrow> response \<Rightarrow> js_error + event list" where
  "streamMessage dec parse resp =
     (if \<not> ok resp then Inl (streamMessage_error parse resp)
      else (case body resp of
              None \<Rightarrow> Inl (Error (JStr ''No response body''))
            | Some cs \<Rightarrow> Inr (streamMessage_loop dec parse (d_init dec, [], []) cs)))"

section \<open>The platform's parts, for the examples\<close>

text \<open>
  The UTF-8 decoder of the Encoding Standard, which \<open>TextDecoder\<close> and \<open>TextDecoderStream\<close>
  run: the bytes of the character being read are kept until it is complete, a byte outside
  the boundaries gives U+FFFD and is read again as the start of a character, and a byte order
  mark that is the first character is dropped. The text given out is UTF-8 again.
\<close>

record utf8_state =
  bytes_needed :: nat
  bytes_seen :: "byte list"
  lower_boundary :: nat
  upper_boundary :: nat
  bom_seen :: bool

definition utf8_reset :: "utf8_state \<Rightarrow> utf8_state" where
  "utf8_reset st =
     st\<lparr>bytes_needed := 0, bytes_seen := [], lower_boundary := 0x80, upper_boundary := 0xBF\<rparr>"

definition utf8_out :: "utf8_state \<Rightarrow> string \<Rightarrow> utf8_state \<times> string" where
  "utf8_out st ch =
     (st\<lparr>bom_seen := True\<rparr>,
      if \<not> bom_seen st \<and> ch = [CHR 0xEF, CHR 0xBB, CHR 0xBF] then [] else ch)"

definition replacement :: string where
  "replacement = [CHR 0xEF, CHR 0xBF, CHR 0xBD]"

definition utf8_lead :: "utf8_state \<Rightarrow> byte \<Rightarrow> utf8_state \<times> string" where
  "utf8_lead st b =
     (let n = (of_char b :: nat) in
      if n \<le> 0x7F then utf8_out st [b]
      else if 0xC2 \<le> n \<and> n \<le> 0xDF then
        (st\<lparr>bytes_needed := 1, bytes_seen := [b]\<rparr>, [])
      else if 0xE0 \<le> n \<and> n \<le> 0xEF then
        (st\<lparr>bytes_needed := 2, bytes_seen := [b],
            lower_boundary := (if n = 0xE0 then 0xA0 else 0x80),
            upper_boundary := (if n = 0xED then 0x9F else 0xBF)\<rparr>, [])
      else if 0xF0 \<le> n \<and> n \<le> 0xF4 then
        (st\<lparr>bytes_needed := 3, bytes_seen := [b],
            lower_boundary := (if n = 0xF0 then 0x90 else 0x80),
            upper_boundary := (if n = 0xF4 then 0x8F else 0xBF)\<rparr>, [])
      else utf8_out st replacement)"

definition utf8_step :: "utf8_state \<Rightarrow> byte \<Rightarrow> utf8_state \<times> string" where
  "utf8_step st b =
     (let n = (of_char b :: nat) in
      if bytes_needed st = 0 then utf8_lead st b
      else if n < lower_boundary st \<or> upper_boundary st < n then
        (case utf8_out (utf8_reset st) replacement of (st1, out1) \<Rightarrow>
           (case utf8_lead st1 b of (st2, out2) \<Rightarrow> (st2, out1 @ out2)))
      else if length (bytes_seen st) = bytes_needed st then
        utf8_out (utf8_reset st) (bytes_seen st @ [b])
      else (st\<lparr>bytes_seen := bytes_seen st @ [b], lower_boundary := 0x80, upper_boundary := 0xBF\<rparr>, []))"

definition utf8_flush :: "utf8_state \<Rightarrow> string" where
  "utf8_flush st = (if bytes_needed st = 0 then [] else snd (utf8_out st replacement))"

definition utf8 :: "utf8_state text_decoder" where
  "utf8 =
     \<lparr>d_init = \<lparr>bytes_needed = 0, bytes_seen = [], lower_boundary = 0x80, upper_boundary = 0xBF,
                bom_seen = False\<rparr>,
      d_step = utf8_step,
      d_flush = utf8_flush\<rparr>"

text \<open>
  \<open>JSON.parse\<close> on the payloads of the examples below, and on texts that are not JSON.
  The examples only apply it to these.
\<close>

definition parse_examples :: json_parse where
  \<open>parse_examples s =
     (if s = ''{}'' then Some (JObj [])
      else if s = ''{"text":"chunk1"}'' then Some (JObj [(''text'', JStr ''chunk1'')])
      else if s = ''{"text":"caf'' @ [CHR 0xC3, CHR 0xA9] @ ''"}'' then
        Some (JObj [(''text'', JStr (''caf'' @ [CHR 0xC3, CHR 0xA9]))])
      else None)\<close>

text \<open>A response with status 200 and the given chunks as its body.\<close>

definition ok_response :: "byte list list \<Rightarrow> response" where
  "ok_response cs = \<lparr>ok = True, status = 200, text_of = [], body = Some cs\<rparr>"

section \<open>Frames and lines\<close>

text \<open>All the text that the reader of \<open>MessagesAPI.stream\<close> delivers.\<close>

definition reader_text :: "'s text_decoder \<Rightarrow> byte list list \<Rightarrow> string" where
  "reader_text dec cs = concat (decode_chunks dec (d_init dec) cs)"

text \<open>
  All the text that the decoder of \<open>streamMessage\<close> gives out (it is never flushed), and
  its complete lines: the pieces before the last newline.
\<close>

definition decoded_text :: "'s text_decoder \<Rightarrow> byte list list \<Rightarrow> string" where
  "decoded_text dec cs = snd (d_feed dec (d_init dec) (concat cs))"

definition stream_lines :: "'s text_decoder \<Rightarrow> byte list list \<Rightarrow> string list" where
  "stream_lines dec cs = butlast (js_split [nl] (decoded_text dec cs))"

text \<open>
  A frame as it stands between two delimiters: a text with no blank line in it and no
  newline at its end. \<open>frames_text\<close> writes frames one after the other, each followed by the
  blank-line delimiter.
\<close>

fun is_frame :: "string \<Rightarrow> bool" where
  "is_frame [] = True"
| "is_frame [c] = (c \<noteq> nl)"
| "is_frame (c # d # cs) = ((c \<noteq> nl \<or> d \<noteq> nl) \<and> is_frame (d # cs))"

definition frames_text :: "string list \<Rightarrow> string" where
  "frames_text fs = concat (map (\<lambda>f. f @ [nl, nl]) fs)"

text \<open>
  The \<open>event:\<close> lines and the \<open>data:\<close> lines of a frame, the value of its last \<open>event:\<close>
  line (\<open>None\<close> when it has none), and the values of its \<open>data:\<close> lines joined by newlines.
\<close>

definition event_lines :: "string \<Rightarrow> string list" where
  "event_lines chunk = filter (prefix ''event:'') (js_split [nl] chunk)"

definition data_lines :: "string \<Rightarrow> string list" where
  "data_lines chunk = filter (prefix ''data:'') (js_split [nl] chunk)"

definition frame_type :: "string \<Rightarrow> string option" where
  "frame_type chunk =
     (if event_lines chunk = [] then None
      else Some (strip_space (drop 6 (last (event_lines chunk)))))"

definition data_text :: "string \<Rightarrow> string" where
  "data_text chunk = js_join [nl] (map (\<lambda>l. strip_space (drop 5 l)) (data_lines chunk))"

text \<open>
  For \<open>streamMessage\<close>: the type set by the most recent \<open>event: \<close> line among the lines
  given, empty when there is none, and what a line yields under a type.
\<close>

definition latest_event_type :: "string list \<Rightarrow> string" where
  "latest_event_type ls =
     (case filter (prefix ''event: '') ls of
        [] \<Rightarrow> []
      | e # es \<Rightarrow> drop 7 (last (e # es)))"

definition line_event :: "json_parse \<Rightarrow> string \<Rightarrow> string \<Rightarrow> event list" where
  "line_event parse t line =
     (if prefix ''data: '' line \<and> t \<noteq> [] then
        (case parse (drop 6 line) of
           Some v \<Rightarrow> [\<lparr>ev_type = t, ev_data = v\<rparr>]
         | None \<Rightarrow> [])
      else [])"

text \<open>What the loop of \<open>MessagesAPI.stream\<close> yields when the reader delivers \<open>text\<close> and closes.\<close>

definition text_events :: "json_parse \<Rightarrow> string \<Rightarrow> event list" where
  "text_events parse text = stream_loop parse [] [text]"

text \<open>
  For \<open>streamMessage\<close>, frame by frame. The type in force after the lines \<open>ls\<close>, from the
  type \<open>t\<close> in force before them: the value of the last \<open>event: \<close> line among them, or \<open>t\<close>.
\<close>

definition type_after :: "string \<Rightarrow> string list \<Rightarrow> string" where
  "type_after t ls =
     (case filter (prefix ''event: '') ls of
        [] \<Rightarrow> t
      | e # es \<Rightarrow> drop 7 (last (e # es)))"

text \<open>
  The places of the lines of \<open>ls\<close> that yield an event: a \<open>data: \<close> line whose text parses,
  under a type in force that is not empty.
\<close>

definition yielding_lines :: "json_parse \<Rightarrow> string \<Rightarrow> string list \<Rightarrow> nat list" where
  "yielding_lines parse t ls =
     filter (\<lambda>i. prefix ''data: '' (ls ! i) \<and> type_after t (take i ls) \<noteq> []
                 \<and> parse (drop 6 (ls ! i)) \<noteq> None)
       [0..<length ls]"

text \<open>
  Every frame of \<open>fs\<close> has exactly one line that yields an event, the type in force being
  carried from each frame to the next; and the events that such frames give, one each.
\<close>

fun one_event_each :: "json_parse \<Rightarrow> string \<Rightarrow> string list \<Rightarrow> bool" where
  "one_event_each parse t [] = True"
| "one_event_each parse t (f # fs) =
     (length (yielding_lines parse t (js_split [nl] f)) = 1
      \<and> one_event_each parse (type_after t (js_split [nl] f)) fs)"

fun frames_events :: "json_parse \<Rightarrow> string \<Rightarrow> string list \<Rightarrow> event list" where
  "frames_events parse t [] = []"
| "frames_events parse t (f # fs) =
     (let ls = js_split [nl] f; i = hd (yielding_lines parse t ls)
      in \<lparr>ev_type = type_after t (take i ls), ev_data = the (parse (drop 6 (ls ! i)))\<rparr>
         # frames_events parse (type_after t ls) fs)"

section \<open>Splitting\<close>

lemma js_split_nonempty: "js_split sep s \<noteq> []"
  by (subst js_split.simps) (simp add: Let_def)

lemma js_split_Nil: "js_split sep [] = [[]]"
  by (simp add: js_split.simps)

lemma js_split_match:
  "sep \<noteq> [] \<Longrightarrow> js_split sep (sep @ s) = [] # js_split sep s"
  by (subst js_split.simps) simp

lemma js_split_nomatch:
  "\<not> (sep \<noteq> [] \<and> prefix sep (c # s)) \<Longrightarrow>
   js_split sep (c # s) = (c # hd (js_split sep s)) # tl (js_split sep s)"
  by (subst js_split.simps) (simp add: Let_def)

lemma js_split_single: "js_split sep s = [p] \<Longrightarrow> p = s"
proof (induction sep s arbitrary: p rule: js_split.induct)
  case (1 sep s)
  show ?case
  proof (cases s)
    case Nil
    then show ?thesis using "1.prems" by (simp add: js_split_Nil)
  next
    case (Cons c r)
    show ?thesis
    proof (cases "sep \<noteq> [] \<and> prefix sep s")
      case True
      then obtain r' where "s = sep @ r'" by (auto simp: prefix_def)
      then have "js_split sep s = [] # js_split sep r'"
        using True js_split_match by simp
      then show ?thesis
        using "1.prems" js_split_nonempty[of sep r'] by simp
    next
      case False
      then have sp: "js_split sep s = (c # hd (js_split sep r)) # tl (js_split sep r)"
        using Cons js_split_nomatch by simp
      then have t: "tl (js_split sep r) = []" and p: "p = c # hd (js_split sep r)"
        using "1.prems" by simp_all
      have "js_split sep r = [hd (js_split sep r)]"
        using t js_split_nonempty[of sep r] by (cases "js_split sep r") simp_all
      then have "hd (js_split sep r) = r"
        using "1.IH"(2)[of "hd (js_split sep r)"] False Cons by simp
      then show ?thesis using p Cons by simp
    qed
  qed
qed

text \<open>A text shorter than the separator is one piece.\<close>
lemma js_split_short: "length s < length sep \<Longrightarrow> js_split sep s = [s]"
proof (induction s)
  case Nil
  then show ?case by (simp add: js_split_Nil)
next
  case (Cons c s)
  have "\<not> prefix sep (c # s)"
    using Cons.prems by (auto dest: prefix_length_le)
  then show ?case
    using Cons by (simp add: js_split_nomatch)
qed

lemma js_split_append:
  "js_split sep (x @ y) = butlast (js_split sep x) @ js_split sep (last (js_split sep x) @ y)"
proof (induction sep x rule: js_split.induct)
  case (1 sep s)
  show ?case
  proof (cases s)
    case Nil
    then show ?thesis by (simp add: js_split_Nil)
  next
    case (Cons c r)
    show ?thesis
    proof (cases "sep \<noteq> [] \<and> prefix sep s")
      case True
      then obtain r' where s: "s = sep @ r'" by (auto simp: prefix_def)
      have "js_split sep (s @ y) = [] # js_split sep (r' @ y)"
        using True s js_split_match[of sep "r' @ y"] by simp
      moreover have "js_split sep s = [] # js_split sep r'"
        using True s js_split_match[of sep r'] by simp
      moreover have "js_split sep (r' @ y) = butlast (js_split sep r') @ js_split sep (last (js_split sep r') @ y)"
        using "1.IH"(1) True s Cons by simp
      ultimately show ?thesis
        by (simp add: js_split_nonempty)
    next
      case False
      obtain P where P: "P = js_split sep r" by simp
      have IH: "js_split sep (r @ y) = butlast P @ js_split sep (last P @ y)"
        using "1.IH"(2) False Cons P by simp
      have sp: "js_split sep s = (c # hd P) # tl P"
        using False Cons P by (simp add: js_split_nomatch)
      show ?thesis
      proof (cases "sep \<noteq> [] \<and> prefix sep (s @ y)")
        case True
        have "length s < length sep"
        proof (rule ccontr)
          assume "\<not> length s < length sep"
          then have "prefix sep s"
            using True by (auto simp: prefix_def append_eq_append_conv_if)
               (metis append_eq_conv_conj take_all_iff take_append prefix_def linorder_not_less)
          then show False using False True by simp
        qed
        then show ?thesis by (simp add: js_split_short)
      next
        case F2: False
        have sy: "js_split sep (s @ y) = (c # hd (js_split sep (r @ y))) # tl (js_split sep (r @ y))"
          using F2 Cons by (simp add: js_split_nomatch)
        show ?thesis
        proof (cases "tl P")
          case Nil
          then have "js_split sep s = [c # hd P]" using sp by simp
          then have "js_split sep s = [s]" using js_split_single by blast
          then show ?thesis by simp
        next
          case (Cons q qs)
          then obtain p where PP: "P = p # q # qs"
            by (cases P) auto
          show ?thesis
            using sy sp IH PP by simp
        qed
      qed
    qed
  qed
qed

lemma js_split_last_fixed: "js_split sep (last (js_split sep s)) = [last (js_split sep s)]"
proof (induction sep s rule: js_split.induct)
  case (1 sep s)
  show ?case
  proof (cases s)
    case Nil
    then show ?thesis by (simp add: js_split_Nil)
  next
    case (Cons c r)
    show ?thesis
    proof (cases "sep \<noteq> [] \<and> prefix sep s")
      case True
      then obtain r' where s: "s = sep @ r'" by (auto simp: prefix_def)
      have "js_split sep s = [] # js_split sep r'"
        using True s js_split_match[of sep r'] by simp
      then show ?thesis
        using "1.IH"(1) True s Cons by (simp add: js_split_nonempty)
    next
      case False
      obtain P where P: "P = js_split sep r" by simp
      have sp: "js_split sep s = (c # hd P) # tl P"
        using False Cons P by (simp add: js_split_nomatch)
      show ?thesis
      proof (cases "tl P")
        case Nil
        then have "js_split sep s = [c # hd P]" using sp by simp
        then have "js_split sep s = [s]" using js_split_single by blast
        then show ?thesis by simp
      next
        case (Cons q qs)
        then obtain p where PP: "P = p # q # qs"
          by (cases P) auto
        have "js_split sep (last P) = [last P]"
          using "1.IH"(2) False \<open>s = c # r\<close> P by simp
        then show ?thesis using sp PP by simp
      qed
    qed
  qed
qed

section \<open>The loops read the whole text\<close>

lemma d_feed_append:
  "d_feed dec st (xs @ ys) =
     (fst (d_feed dec (fst (d_feed dec st xs)) ys),
      snd (d_feed dec st xs) @ snd (d_feed dec (fst (d_feed dec st xs)) ys))"
  by (induction xs arbitrary: st) (simp_all add: split_beta Let_def)

lemma decode_chunks_concat:
  "concat (decode_chunks dec st cs) =
     snd (d_feed dec st (concat cs)) @ d_flush dec (fst (d_feed dec st (concat cs)))"
  by (induction cs arbitrary: st) (simp_all add: split_beta Let_def d_feed_append)

lemma run_frames_append:
  "run_frames parse (xs @ ys) =
     (if snd (run_frames parse xs) then run_frames parse xs
      else (fst (run_frames parse xs) @ fst (run_frames parse ys), snd (run_frames parse ys)))"
  by (induction xs) (auto simp: split_beta split: option.splits)

lemma butlast_js_split_append:
  "butlast (js_split sep (x @ y)) =
     butlast (js_split sep x) @ butlast (js_split sep (last (js_split sep x) @ y))"
  by (subst js_split_append) (simp add: butlast_append js_split_nonempty)

lemma last_js_split_append:
  "last (js_split sep (x @ y)) = last (js_split sep (last (js_split sep x) @ y))"
  by (subst js_split_append) (simp add: js_split_nonempty)

lemma stream_loop_whole:
  "js_split [nl, nl] buffer = [buffer] \<Longrightarrow>
   stream_loop parse buffer vs =
     fst (run_frames parse (butlast (js_split [nl, nl] (buffer @ concat vs))))"
proof (induction vs arbitrary: buffer)
  case Nil
  then show ?case by simp
next
  case (Cons v vs)
  let ?b = "last (js_split [nl, nl] (buffer @ v))"
  have fixed: "js_split [nl, nl] ?b = [?b]"
    by (rule js_split_last_fixed)
  have whole: "butlast (js_split [nl, nl] (buffer @ v @ concat vs)) =
      butlast (js_split [nl, nl] (buffer @ v)) @ butlast (js_split [nl, nl] (?b @ concat vs))"
    using butlast_js_split_append[of "[nl, nl]" "buffer @ v" "concat vs"] by simp
  show ?case
    using Cons.IH[OF fixed]
    by (simp add: stream_step_def Let_def split_beta whole run_frames_append)
qed

lemma stream_whole:
  "ok resp \<Longrightarrow> body resp = Some cs \<Longrightarrow>
   stream dec parse resp =
     Inr (fst (run_frames parse (butlast (js_split [nl, nl] (reader_text dec cs)))))"
  using stream_loop_whole[of "[]" parse "decode_chunks dec (d_init dec) cs"]
  by (simp add: stream_def reader_text_def js_split_Nil)

lemma reader_text_concat: "reader_text dec cs = reader_text dec [concat cs]"
  by (simp add: reader_text_def decode_chunks_concat split_beta Let_def)

lemma streamMessage_lines_append:
  "streamMessage_lines parse t (xs @ ys) =
     (fst (streamMessage_lines parse t xs)
        @ fst (streamMessage_lines parse (snd (streamMessage_lines parse t xs)) ys),
      snd (streamMessage_lines parse (snd (streamMessage_lines parse t xs)) ys))"
  by (induction xs arbitrary: t) (auto simp: split_beta split: option.splits)

lemma streamMessage_loop_whole:
  "js_split [nl] buffer = [buffer] \<Longrightarrow>
   streamMessage_loop dec parse (st, buffer, t) cs =
     fst (streamMessage_lines parse t
            (butlast (js_split [nl] (buffer @ snd (d_feed dec st (concat cs))))))"
proof (induction cs arbitrary: st buffer t)
  case Nil
  then show ?case by simp
next
  case (Cons c cs)
  let ?st = "fst (d_feed dec st c)"
  let ?text = "snd (d_feed dec st c)"
  let ?b = "last (js_split [nl] (buffer @ ?text))"
  let ?rest = "snd (d_feed dec ?st (concat cs))"
  have fixed: "js_split [nl] ?b = [?b]"
    by (rule js_split_last_fixed)
  have whole: "butlast (js_split [nl] (buffer @ snd (d_feed dec st (c @ concat cs)))) =
      butlast (js_split [nl] (buffer @ ?text)) @ butlast (js_split [nl] (?b @ ?rest))"
    using butlast_js_split_append[of "[nl]" "buffer @ ?text" ?rest]
    by (simp add: d_feed_append)
  show ?case
    using Cons.IH[OF fixed, of ?st]
    by (simp add: streamMessage_step_def Let_def split_beta whole streamMessage_lines_append)
qed

lemma streamMessage_whole:
  "ok resp \<Longrightarrow> body resp = Some cs \<Longrightarrow>
   streamMessage dec parse resp =
     Inr (fst (streamMessage_lines parse [] (stream_lines dec cs)))"
  using streamMessage_loop_whole[of "[]" dec parse "d_init dec" "[]" cs]
  by (simp add: streamMessage_def stream_lines_def decoded_text_def js_split_Nil)

section \<open>Frames\<close>

lemma js_split_frame:
  "is_frame f \<Longrightarrow> js_split [nl, nl] (f @ [nl, nl] @ rest) = f # js_split [nl, nl] rest"
proof (induction f rule: is_frame.induct)
  case 1
  show ?case using js_split_match[of "[nl, nl]" rest] by simp
next
  case (2 c)
  have "js_split [nl, nl] (c # [nl, nl] @ rest) =
      (c # hd (js_split [nl, nl] ([nl, nl] @ rest))) # tl (js_split [nl, nl] ([nl, nl] @ rest))"
    using 2 by (intro js_split_nomatch) simp
  then show ?case using js_split_match[of "[nl, nl]" rest] by simp
next
  case (3 c d cs)
  have "js_split [nl, nl] (c # (d # cs) @ [nl, nl] @ rest) =
      (c # hd (js_split [nl, nl] ((d # cs) @ [nl, nl] @ rest)))
        # tl (js_split [nl, nl] ((d # cs) @ [nl, nl] @ rest))"
    using 3 by (intro js_split_nomatch) auto
  then show ?case using 3 by simp
qed

lemma js_split_frames:
  "\<forall>f\<in>set fs. is_frame f \<Longrightarrow>
   js_split [nl, nl] (frames_text fs @ rest) = fs @ js_split [nl, nl] rest"
proof (induction fs)
  case Nil
  then show ?case by (simp add: frames_text_def)
next
  case (Cons f fs)
  have "frames_text (f # fs) @ rest = f @ [nl, nl] @ (frames_text fs @ rest)"
    by (simp add: frames_text_def)
  then show ?case using Cons js_split_frame[of f "frames_text fs @ rest"] by simp
qed

lemma butlast_js_split_frames:
  "\<forall>f\<in>set fs. is_frame f \<Longrightarrow>
   butlast (js_split [nl, nl] (frames_text fs @ rest)) = fs @ butlast (js_split [nl, nl] rest)"
  by (simp add: js_split_frames butlast_append js_split_nonempty)

lemma event_not_data: "prefix ''event:'' l \<Longrightarrow> \<not> prefix ''data:'' l"
  by (cases l) auto

lemma scan_fold:
  "fold scan_line ls (t, ds) =
     (if filter (prefix ''event:'') ls = [] then t
      else Some (strip_space (drop 6 (last (filter (prefix ''event:'') ls)))),
      ds @ map (\<lambda>l. strip_space (drop 5 l)) (filter (prefix ''data:'') ls))"
proof (induction ls arbitrary: t ds)
  case Nil
  then show ?case by simp
next
  case (Cons l ls)
  show ?case
  proof (cases "prefix ''event:'' l")
    case True
    then have "scan_line l (t, ds) = (Some (strip_space (drop 6 l)), ds)"
      by (simp add: scan_line_def)
    then show ?thesis
      using True event_not_data[OF True] Cons.IH[of "Some (strip_space (drop 6 l))" ds] by simp
  next
    case False
    show ?thesis
    proof (cases "prefix ''data:'' l")
      case True
      then have "scan_line l (t, ds) = (t, ds @ [strip_space (drop 5 l)])"
        using False by (simp add: scan_line_def)
      then show ?thesis
        using True False Cons.IH[of t "ds @ [strip_space (drop 5 l)]"] by simp
    next
      case F2: False
      then have "scan_line l (t, ds) = (t, ds)"
        using False by (simp add: scan_line_def)
      then show ?thesis
        using F2 False Cons.IH[of t ds] by simp
    qed
  qed
qed

lemma frame_event_eq:
  "frame_event parse chunk =
     (if data_lines chunk = [] then None
      else Some (\<lparr>ev_type = or_content (frame_type chunk),
                  ev_data = (case parse (data_text chunk) of
                               Some v \<Rightarrow> v
                             | None \<Rightarrow> JObj [(''raw'', JStr (data_text chunk))])\<rparr>,
                 frame_type chunk = Some ''done''))"
  by (simp add: frame_event_def scan_fold data_lines_def event_lines_def frame_type_def
      data_text_def Let_def split: option.splits)

lemma run_frames_skip:
  "frame_event parse f = None \<Longrightarrow>
   run_frames parse (pre @ f # post) = run_frames parse (pre @ post)"
  by (simp add: run_frames_append)

lemma stream_skip_frame:
  assumes "ok resp" and "\<forall>p\<in>set pre. is_frame p" and "is_frame f"
    and "frame_event parse f = None"
    and "reader_text dec cs = frames_text pre @ f @ [nl, nl] @ rest"
    and "reader_text dec cs' = frames_text pre @ rest"
  shows "stream dec parse (resp\<lparr>body := Some cs\<rparr>) = stream dec parse (resp\<lparr>body := Some cs'\<rparr>)"
proof -
  have eq: "reader_text dec cs = frames_text (pre @ [f]) @ rest"
    using assms(5) by (simp add: frames_text_def)
  have "butlast (js_split [nl, nl] (reader_text dec cs)) =
      pre @ f # butlast (js_split [nl, nl] rest)"
    unfolding eq using assms(2,3) butlast_js_split_frames[of "pre @ [f]" rest] by simp
  moreover have "butlast (js_split [nl, nl] (reader_text dec cs')) =
      pre @ butlast (js_split [nl, nl] rest)"
    using assms butlast_js_split_frames[of pre rest] by simp
  ultimately show ?thesis
    using assms(1,4) by (simp add: stream_whole run_frames_skip)
qed

lemma data_lines_bare_done: "data_lines ''event: done'' = []"
  by code_simp

section \<open>The claims\<close>

subsection \<open>A \<open>done\<close> frame without data\<close>

text \<open>
  C10. In \<open>MessagesAPI.stream\<close> a frame that is \<open>event: done\<close> alone, with no \<open>data:\<close>
  line, yields no event and does not end the decoding: the stream that has this frame after
  the frames \<open>pre\<close> yields what the stream without it yields, whatever follows. The
  generator returns after a frame only when that frame has a \<open>data:\<close> line.
\<close>

theorem bare_done_frame_ignored:
  assumes "ok resp" and "\<forall>p\<in>set pre. is_frame p"
    and "reader_text dec cs = frames_text pre @ ''event: done'' @ [nl, nl] @ rest"
    and "reader_text dec cs' = frames_text pre @ rest"
  shows "frame_event parse ''event: done'' = None
    \<and> stream dec parse (resp\<lparr>body := Some cs\<rparr>) = stream dec parse (resp\<lparr>body := Some cs'\<rparr>)
    \<and> (\<forall>chunk e. frame_event parse chunk = Some (e, True) \<longrightarrow> data_lines chunk \<noteq> [])"
proof -
  have none: "frame_event parse ''event: done'' = None"
    by (simp add: frame_event_eq data_lines_bare_done)
  have fr: "is_frame ''event: done''"
    by (simp add: nl_def)
  have "stream dec parse (resp\<lparr>body := Some cs\<rparr>) = stream dec parse (resp\<lparr>body := Some cs'\<rparr>)"
    using stream_skip_frame[OF assms(1,2) fr none assms(3,4)] .
  moreover have "\<forall>chunk e. frame_event parse chunk = Some (e, True) \<longrightarrow> data_lines chunk \<noteq> []"
    by (auto simp: frame_event_eq split: if_splits)
  ultimately show ?thesis using none by blast
qed

theorem bare_done_frame_ignored_witness:
  \<open>ok (ok_response [])
   \<and> is_frame ''event: content\<newline>data: {}''
   \<and> reader_text utf8 [''event: content\<newline>data: {}\<newline>\<newline>event: done\<newline>'', ''\<newline>event: content\<newline>data: {"text":"chunk1"}\<newline>\<newline>'']
       = frames_text [''event: content\<newline>data: {}''] @ ''event: done'' @ [nl, nl]
           @ ''event: content\<newline>data: {"text":"chunk1"}\<newline>\<newline>''
   \<and> reader_text utf8 [''event: content\<newline>data: {}\<newline>\<newline>event: content\<newline>data: {"text":"chunk1"}\<newline>\<newline>'']
       = frames_text [''event: content\<newline>data: {}'']
           @ ''event: content\<newline>data: {"text":"chunk1"}\<newline>\<newline>''
   \<and> frame_event parse_examples ''event: done'' = None
   \<and> stream utf8 parse_examples (ok_response [''event: content\<newline>data: {}\<newline>\<newline>event: done\<newline>'', ''\<newline>event: content\<newline>data: {"text":"chunk1"}\<newline>\<newline>''])
       = stream utf8 parse_examples (ok_response [''event: content\<newline>data: {}\<newline>\<newline>event: content\<newline>data: {"text":"chunk1"}\<newline>\<newline>''])
   \<and> frame_event parse_examples ''event: done\<newline>data: {}'' = Some (\<lparr>ev_type = ''done'', ev_data = JObj []\<rparr>, True)
   \<and> data_lines ''event: done\<newline>data: {}'' \<noteq> []\<close>
proof -
  have h1: "ok (ok_response [])"
    by (simp add: ok_response_def)
  have h2: \<open>\<forall>p\<in>set [''event: content\<newline>data: {}'']. is_frame p\<close>
    by (simp add: nl_def)
  have h3: \<open>reader_text utf8 [''event: content\<newline>data: {}\<newline>\<newline>event: done\<newline>'', ''\<newline>event: content\<newline>data: {"text":"chunk1"}\<newline>\<newline>'']
       = frames_text [''event: content\<newline>data: {}''] @ ''event: done'' @ [nl, nl]
           @ ''event: content\<newline>data: {"text":"chunk1"}\<newline>\<newline>''\<close>
    by code_simp
  have h4: \<open>reader_text utf8 [''event: content\<newline>data: {}\<newline>\<newline>event: content\<newline>data: {"text":"chunk1"}\<newline>\<newline>'']
       = frames_text [''event: content\<newline>data: {}'']
           @ ''event: content\<newline>data: {"text":"chunk1"}\<newline>\<newline>''\<close>
    by code_simp
  have h5: \<open>frame_event parse_examples ''event: done\<newline>data: {}'' = Some (\<lparr>ev_type = ''done'', ev_data = JObj []\<rparr>, True)\<close>
    by code_simp
  note c = bare_done_frame_ignored[OF h1 h2 h3 h4, of parse_examples]
  have c1: "frame_event parse_examples ''event: done'' = None"
    using c by blast
  have c2: \<open>stream utf8 parse_examples (ok_response [''event: content\<newline>data: {}\<newline>\<newline>event: done\<newline>'', ''\<newline>event: content\<newline>data: {"text":"chunk1"}\<newline>\<newline>''])
       = stream utf8 parse_examples (ok_response [''event: content\<newline>data: {}\<newline>\<newline>event: content\<newline>data: {"text":"chunk1"}\<newline>\<newline>''])\<close>
    using c by (simp add: ok_response_def)
  have c3: \<open>data_lines ''event: done\<newline>data: {}'' \<noteq> []\<close>
    using c h5 by blast
  have h2': \<open>is_frame ''event: content\<newline>data: {}''\<close>
    by (simp add: nl_def)
  show ?thesis
    by (intro conjI h1 h2' h3 h4 h5 c1 c2 c3)
qed

subsection \<open>Chunking\<close>

lemma stream_whole_upd:
  "ok resp \<Longrightarrow>
   stream dec parse (resp\<lparr>body := Some cs\<rparr>) =
     Inr (fst (run_frames parse (butlast (js_split [nl, nl] (reader_text dec cs)))))"
  by (rule stream_whole) simp_all

lemma stream_not_ok:
  "\<not> ok resp \<Longrightarrow> stream dec parse (resp\<lparr>body := b\<rparr>) = stream dec parse resp"
  by (simp add: stream_def)

lemma streamMessage_whole_upd:
  "ok resp \<Longrightarrow>
   streamMessage dec parse (resp\<lparr>body := Some cs\<rparr>) =
     Inr (fst (streamMessage_lines parse [] (stream_lines dec cs)))"
  by (rule streamMessage_whole) simp_all

lemma streamMessage_not_ok:
  "\<not> ok resp \<Longrightarrow>
   streamMessage dec parse (resp\<lparr>body := b\<rparr>) = streamMessage dec parse resp"
  by (simp add: streamMessage_def streamMessage_error_def)

lemma stream_lines_cong: "concat cs = concat cs' \<Longrightarrow> stream_lines dec cs = stream_lines dec cs'"
  by (simp add: stream_lines_def decoded_text_def)

lemma reader_text_cong: "concat cs = concat cs' \<Longrightarrow> reader_text dec cs = reader_text dec cs'"
  using reader_text_concat[of dec cs] reader_text_concat[of dec cs'] by simp

lemma stream_body_concat:
  assumes "concat cs = concat cs'"
  shows "stream dec parse (resp\<lparr>body := Some cs\<rparr>) = stream dec parse (resp\<lparr>body := Some cs'\<rparr>)"
proof (cases "ok resp")
  case True
  then show ?thesis
    by (simp add: stream_whole_upd reader_text_cong[OF assms])
next
  case False
  then show ?thesis
    by (simp add: stream_not_ok)
qed

lemma streamMessage_body_concat:
  assumes "concat cs = concat cs'"
  shows "streamMessage dec parse (resp\<lparr>body := Some cs\<rparr>) =
     streamMessage dec parse (resp\<lparr>body := Some cs'\<rparr>)"
proof (cases "ok resp")
  case True
  then show ?thesis
    by (simp add: streamMessage_whole_upd stream_lines_cong[OF assms])
next
  case False
  then show ?thesis
    by (simp add: streamMessage_not_ok)
qed

text \<open>One byte at a time is one way of cutting the stream.\<close>

lemma one_byte_at_a_time:
  "stream dec parse (resp\<lparr>body := Some (map (\<lambda>b. [b]) (concat cs))\<rparr>) =
     stream dec parse (resp\<lparr>body := Some cs\<rparr>)
   \<and> streamMessage dec parse (resp\<lparr>body := Some (map (\<lambda>b. [b]) (concat cs))\<rparr>) =
       streamMessage dec parse (resp\<lparr>body := Some cs\<rparr>)"
proof -
  have "concat (map (\<lambda>b. [b]) bs) = bs" for bs :: "byte list"
    by (induction bs) simp_all
  then have "concat (map (\<lambda>b. [b]) (concat cs)) = concat cs" .
  then show ?thesis
    using stream_body_concat streamMessage_body_concat by blast
qed

text \<open>
  C1. The events decoded do not depend on where the byte stream is cut into chunks: two
  sequences of chunks with the same bytes, cut anywhere (inside the blank-line delimiter,
  inside a multi-byte character, one byte at a time), give the same result, in
  \<open>MessagesAPI.stream\<close> and in \<open>streamMessage\<close>, for any text decoder that keeps its state
  between chunks.
\<close>

theorem chunking_invariance:
  "concat cs = concat cs' \<Longrightarrow>
   stream dec parse (resp\<lparr>body := Some cs\<rparr>) = stream dec parse (resp\<lparr>body := Some cs'\<rparr>)
   \<and> streamMessage dec parse (resp\<lparr>body := Some cs\<rparr>) =
       streamMessage dec parse (resp\<lparr>body := Some cs'\<rparr>)"
  using stream_body_concat streamMessage_body_concat by blast

theorem chunking_invariance_witness:
  \<open>concat [''event: content\<newline>data: {"text":"caf'' @ [CHR 0xC3, CHR 0xA9] @ ''"}\<newline>\<newline>event: done\<newline>data: {}\<newline>\<newline>'']
     = concat [''event: content\<newline>data: {"text":"caf'' @ [CHR 0xC3], [CHR 0xA9] @ ''"}\<newline>'',
               ''\<newline>'', ''e'', ''v'', ''ent: done\<newline>data: {}\<newline>\<newline>'']
   \<and> stream utf8 parse_examples
        (ok_response [''event: content\<newline>data: {"text":"caf'' @ [CHR 0xC3, CHR 0xA9] @ ''"}\<newline>\<newline>event: done\<newline>data: {}\<newline>\<newline>''])
     = stream utf8 parse_examples
        (ok_response [''event: content\<newline>data: {"text":"caf'' @ [CHR 0xC3], [CHR 0xA9] @ ''"}\<newline>'',
                      ''\<newline>'', ''e'', ''v'', ''ent: done\<newline>data: {}\<newline>\<newline>''])
   \<and> streamMessage utf8 parse_examples
        (ok_response [''event: content\<newline>data: {"text":"caf'' @ [CHR 0xC3, CHR 0xA9] @ ''"}\<newline>\<newline>event: done\<newline>data: {}\<newline>\<newline>''])
     = streamMessage utf8 parse_examples
        (ok_response [''event: content\<newline>data: {"text":"caf'' @ [CHR 0xC3], [CHR 0xA9] @ ''"}\<newline>'',
                      ''\<newline>'', ''e'', ''v'', ''ent: done\<newline>data: {}\<newline>\<newline>''])
   \<and> stream utf8 parse_examples
        (ok_response [''event: content\<newline>data: {"text":"caf'' @ [CHR 0xC3], [CHR 0xA9] @ ''"}\<newline>'',
                      ''\<newline>'', ''e'', ''v'', ''ent: done\<newline>data: {}\<newline>\<newline>''])
     = Inr [\<lparr>ev_type = ''content'', ev_data = JObj [(''text'', JStr (''caf'' @ [CHR 0xC3, CHR 0xA9]))]\<rparr>,
            \<lparr>ev_type = ''done'', ev_data = JObj []\<rparr>]\<close>
proof -
  have h: \<open>concat [''event: content\<newline>data: {"text":"caf'' @ [CHR 0xC3, CHR 0xA9] @ ''"}\<newline>\<newline>event: done\<newline>data: {}\<newline>\<newline>'']
     = concat [''event: content\<newline>data: {"text":"caf'' @ [CHR 0xC3], [CHR 0xA9] @ ''"}\<newline>'',
               ''\<newline>'', ''e'', ''v'', ''ent: done\<newline>data: {}\<newline>\<newline>'']\<close>
    by simp
  note c = chunking_invariance[OF h, of utf8 parse_examples "ok_response []"]
  have v: \<open>stream utf8 parse_examples
        (ok_response [''event: content\<newline>data: {"text":"caf'' @ [CHR 0xC3], [CHR 0xA9] @ ''"}\<newline>'',
                      ''\<newline>'', ''e'', ''v'', ''ent: done\<newline>data: {}\<newline>\<newline>''])
     = Inr [\<lparr>ev_type = ''content'', ev_data = JObj [(''text'', JStr (''caf'' @ [CHR 0xC3, CHR 0xA9]))]\<rparr>,
            \<lparr>ev_type = ''done'', ev_data = JObj []\<rparr>]\<close>
    by code_simp
  show ?thesis
    using c by (intro conjI h v) (simp_all only: ok_response_def response.simps)
qed

subsection \<open>Frames without a \<open>data:\<close> line\<close>

text \<open>
  C3, as stated, fails: the frame \<open>event: tool.complete\<close> with no \<open>data:\<close> line yields no
  event in either decoder.
\<close>

theorem event_only_frame_counterexample:
  \<open>stream utf8 parse_examples (ok_response [''event: tool.complete\<newline>\<newline>'']) = Inr []
   \<and> streamMessage utf8 parse_examples (ok_response [''event: tool.complete\<newline>\<newline>'']) = Inr []\<close>
  by code_simp

lemma streamMessage_lines_no_data:
  "\<forall>l\<in>set ls. \<not> prefix ''data: '' l \<Longrightarrow> fst (streamMessage_lines parse t ls) = []"
  by (induction ls arbitrary: t) simp_all

text \<open>
  C3, amended. A frame with no \<open>data:\<close> line yields no event, whatever its \<open>event:\<close> lines:
  \<open>MessagesAPI.stream\<close> yields what it yields on the stream without that frame, and
  \<open>streamMessage\<close> yields nothing for lines none of which is a \<open>data: \<close> line, only the events
  of the lines before and after them.
\<close>

theorem frame_without_data_skipped:
  assumes "ok resp" and "\<forall>p\<in>set pre. is_frame p" and "is_frame f" and "data_lines f = []"
    and "reader_text dec cs = frames_text pre @ f @ [nl, nl] @ rest"
    and "reader_text dec cs' = frames_text pre @ rest"
    and "stream_lines dec bs = before @ ls @ after" and "\<forall>l\<in>set ls. \<not> prefix ''data: '' l"
  shows "frame_event parse f = None
    \<and> stream dec parse (resp\<lparr>body := Some cs\<rparr>) = stream dec parse (resp\<lparr>body := Some cs'\<rparr>)
    \<and> streamMessage dec parse (resp\<lparr>body := Some bs\<rparr>) =
        Inr (fst (streamMessage_lines parse [] before)
             @ fst (streamMessage_lines parse (snd (streamMessage_lines parse [] (before @ ls))) after))"
proof -
  have none: "frame_event parse f = None"
    using assms(4) by (simp add: frame_event_eq)
  have a: "stream dec parse (resp\<lparr>body := Some cs\<rparr>) = stream dec parse (resp\<lparr>body := Some cs'\<rparr>)"
    using stream_skip_frame[OF assms(1,2,3) none assms(5,6)] .
  have "fst (streamMessage_lines parse [] (before @ ls)) = fst (streamMessage_lines parse [] before)"
    by (simp add: streamMessage_lines_append streamMessage_lines_no_data[OF assms(8)])
  moreover have "fst (streamMessage_lines parse [] ((before @ ls) @ after)) =
      fst (streamMessage_lines parse [] (before @ ls))
      @ fst (streamMessage_lines parse (snd (streamMessage_lines parse [] (before @ ls))) after)"
    by (simp only: streamMessage_lines_append[of parse "[]" "before @ ls" after] fst_conv)
  ultimately have "fst (streamMessage_lines parse [] (before @ ls @ after)) =
      fst (streamMessage_lines parse [] before)
      @ fst (streamMessage_lines parse (snd (streamMessage_lines parse [] (before @ ls))) after)"
    by (simp only: append_assoc)
  then have b: "streamMessage dec parse (resp\<lparr>body := Some bs\<rparr>) =
        Inr (fst (streamMessage_lines parse [] before)
             @ fst (streamMessage_lines parse (snd (streamMessage_lines parse [] (before @ ls))) after))"
    using assms(1,7) by (simp add: streamMessage_whole)
  show ?thesis using none a b by blast
qed

theorem frame_without_data_skipped_witness:
  \<open>ok (ok_response [])
   \<and> is_frame ''event: content\<newline>data: {}''
   \<and> is_frame ''event: tool.complete''
   \<and> data_lines ''event: tool.complete'' = []
   \<and> reader_text utf8 [''event: content\<newline>data: {}\<newline>\<newline>event: tool.complete\<newline>\<newline>event: done\<newline>data: {}\<newline>\<newline>'']
       = frames_text [''event: content\<newline>data: {}''] @ ''event: tool.complete'' @ [nl, nl]
           @ ''event: done\<newline>data: {}\<newline>\<newline>''
   \<and> reader_text utf8 [''event: content\<newline>data: {}\<newline>\<newline>event: done\<newline>data: {}\<newline>\<newline>'']
       = frames_text [''event: content\<newline>data: {}''] @ ''event: done\<newline>data: {}\<newline>\<newline>''
   \<and> stream_lines utf8 [''event: content\<newline>data: {}\<newline>\<newline>event: tool.complete\<newline>\<newline>event: done\<newline>data: {}\<newline>\<newline>'']
       = [''event: content'', ''data: {}'', ''''] @ [''event: tool.complete'', ''''] @ [''event: done'', ''data: {}'', '''']
   \<and> \<not> prefix ''data: '' ''event: tool.complete'' \<and> \<not> prefix ''data: '' ''''
   \<and> frame_event parse_examples ''event: tool.complete'' = None
   \<and> stream utf8 parse_examples (ok_response [''event: content\<newline>data: {}\<newline>\<newline>event: tool.complete\<newline>\<newline>event: done\<newline>data: {}\<newline>\<newline>''])
       = stream utf8 parse_examples (ok_response [''event: content\<newline>data: {}\<newline>\<newline>event: done\<newline>data: {}\<newline>\<newline>''])
   \<and> streamMessage utf8 parse_examples (ok_response [''event: content\<newline>data: {}\<newline>\<newline>event: tool.complete\<newline>\<newline>event: done\<newline>data: {}\<newline>\<newline>''])
       = Inr (fst (streamMessage_lines parse_examples [] [''event: content'', ''data: {}'', ''''])
              @ fst (streamMessage_lines parse_examples
                      (snd (streamMessage_lines parse_examples []
                             ([''event: content'', ''data: {}'', ''''] @ [''event: tool.complete'', ''''])))
                      [''event: done'', ''data: {}'', '''']))\<close>
proof -
  have h1: "ok (ok_response [])"
    by (simp add: ok_response_def)
  have h2: \<open>is_frame ''event: content\<newline>data: {}''\<close>
    by (simp add: nl_def)
  have h3: \<open>is_frame ''event: tool.complete''\<close>
    by (simp add: nl_def)
  have h4: \<open>data_lines ''event: tool.complete'' = []\<close>
    by code_simp
  have h5: \<open>reader_text utf8 [''event: content\<newline>data: {}\<newline>\<newline>event: tool.complete\<newline>\<newline>event: done\<newline>data: {}\<newline>\<newline>'']
       = frames_text [''event: content\<newline>data: {}''] @ ''event: tool.complete'' @ [nl, nl]
           @ ''event: done\<newline>data: {}\<newline>\<newline>''\<close>
    by code_simp
  have h6: \<open>reader_text utf8 [''event: content\<newline>data: {}\<newline>\<newline>event: done\<newline>data: {}\<newline>\<newline>'']
       = frames_text [''event: content\<newline>data: {}''] @ ''event: done\<newline>data: {}\<newline>\<newline>''\<close>
    by code_simp
  have h7: \<open>stream_lines utf8 [''event: content\<newline>data: {}\<newline>\<newline>event: tool.complete\<newline>\<newline>event: done\<newline>data: {}\<newline>\<newline>'']
       = [''event: content'', ''data: {}'', ''''] @ [''event: tool.complete'', ''''] @ [''event: done'', ''data: {}'', '''']\<close>
    by code_simp
  have h8a: \<open>\<not> prefix ''data: '' ''event: tool.complete''\<close> and h8b: \<open>\<not> prefix ''data: '' ''''\<close>
    by simp_all
  have h2': \<open>\<forall>p\<in>set [''event: content\<newline>data: {}'']. is_frame p\<close>
    using h2 by (simp only: list.set ball_simps)
  have h8: \<open>\<forall>l\<in>set [''event: tool.complete'', '''']. \<not> prefix ''data: '' l\<close>
    using h8a h8b by (simp only: list.set ball_simps simp_thms)
  note c = frame_without_data_skipped[OF h1 h2' h3 h4 h5 h6 h7 h8, of parse_examples]
  have c1: \<open>frame_event parse_examples ''event: tool.complete'' = None\<close>
    using c by (rule conjunct1)
  have c2: \<open>stream utf8 parse_examples (ok_response [''event: content\<newline>data: {}\<newline>\<newline>event: tool.complete\<newline>\<newline>event: done\<newline>data: {}\<newline>\<newline>''])
       = stream utf8 parse_examples (ok_response [''event: content\<newline>data: {}\<newline>\<newline>event: done\<newline>data: {}\<newline>\<newline>''])\<close>
    using c[THEN conjunct2, THEN conjunct1]
    by (simp only: ok_response_def response.simps)
  have c3: \<open>streamMessage utf8 parse_examples (ok_response [''event: content\<newline>data: {}\<newline>\<newline>event: tool.complete\<newline>\<newline>event: done\<newline>data: {}\<newline>\<newline>''])
       = Inr (fst (streamMessage_lines parse_examples [] [''event: content'', ''data: {}'', ''''])
              @ fst (streamMessage_lines parse_examples
                      (snd (streamMessage_lines parse_examples []
                             ([''event: content'', ''data: {}'', ''''] @ [''event: tool.complete'', ''''])))
                      [''event: done'', ''data: {}'', '''']))\<close>
    using c[THEN conjunct2, THEN conjunct2]
    by (simp only: ok_response_def response.simps)
  show ?thesis
    by (intro conjI h1 h2 h3 h4 h5 h6 h7 h8a h8b c1 c2 c3)
qed

subsection \<open>The \<open>done\<close> frame\<close>

lemma text_events_eq:
  "text_events parse text = fst (run_frames parse (butlast (js_split [nl, nl] text)))"
  using stream_loop_whole[of "[]" parse "[text]"] by (simp add: text_events_def js_split_Nil)

lemma run_frames_no_stop:
  "\<forall>p\<in>set pre. \<not> (frame_type p = Some ''done'' \<and> data_lines p \<noteq> []) \<Longrightarrow>
   \<not> snd (run_frames parse pre)"
  by (induction pre) (auto simp: frame_event_eq split_beta)

lemma run_frames_at:
  assumes "\<forall>p\<in>set pre. \<not> (frame_type p = Some ''done'' \<and> data_lines p \<noteq> [])"
    and "frame_event parse f = Some (e, stop)"
  shows "fst (run_frames parse (pre @ f # post)) =
     fst (run_frames parse pre) @ e # (if stop then [] else fst (run_frames parse post))"
  using run_frames_no_stop[OF assms(1), of parse] assms(2)
  by (simp add: run_frames_append split_beta)

lemma stream_at_frame:
  assumes "ok resp" and "body resp = Some cs"
    and "\<forall>p\<in>set pre. is_frame p \<and> \<not> (frame_type p = Some ''done'' \<and> data_lines p \<noteq> [])"
    and "is_frame f" and "frame_event parse f = Some (e, stop)"
    and "reader_text dec cs = frames_text pre @ f @ [nl, nl] @ rest"
  shows "stream dec parse resp =
     Inr (fst (run_frames parse pre) @ e # (if stop then [] else text_events parse rest))"
proof -
  have eq: "reader_text dec cs = frames_text (pre @ [f]) @ rest"
    using assms(6) by (simp add: frames_text_def)
  have "butlast (js_split [nl, nl] (reader_text dec cs)) =
      pre @ f # butlast (js_split [nl, nl] rest)"
    unfolding eq using assms(3,4) butlast_js_split_frames[of "pre @ [f]" rest] by simp
  moreover have "\<forall>p\<in>set pre. \<not> (frame_type p = Some ''done'' \<and> data_lines p \<noteq> [])"
    using assms(3) by blast
  ultimately show ?thesis
    using assms(1,2,5) by (simp add: stream_whole run_frames_at text_events_eq)
qed

text \<open>
  C2, as stated, fails: after a \<open>done\<close> frame with no \<open>data:\<close> line \<open>MessagesAPI.stream\<close>
  goes on to yield the next frame, and \<open>streamMessage\<close> goes on after every \<open>done\<close> frame.
\<close>

theorem done_then_more_counterexample:
  \<open>stream utf8 parse_examples
      (ok_response [''event: done\<newline>\<newline>event: content\<newline>data: {}\<newline>\<newline>''])
     = Inr [\<lparr>ev_type = ''content'', ev_data = JObj []\<rparr>]
   \<and> streamMessage utf8 parse_examples
      (ok_response [''event: done\<newline>data: {}\<newline>\<newline>event: content\<newline>data: {}\<newline>\<newline>''])
     = Inr [\<lparr>ev_type = ''done'', ev_data = JObj []\<rparr>, \<lparr>ev_type = ''content'', ev_data = JObj []\<rparr>]\<close>
  by code_simp

text \<open>
  C2, amended. In \<open>MessagesAPI.stream\<close>, at the first frame whose type is \<open>done\<close> and that
  has at least one \<open>data:\<close> line, the decoder yields the \<open>done\<close> event and returns: the
  result is the events of the frames before it and the \<open>done\<close> event, whatever text \<open>rest\<close>
  follows the frame.
\<close>

theorem done_with_data_stops:
  assumes "ok resp" and "body resp = Some cs"
    and "\<forall>p\<in>set pre. is_frame p \<and> \<not> (frame_type p = Some ''done'' \<and> data_lines p \<noteq> [])"
    and "is_frame f" and "frame_type f = Some ''done''" and "data_lines f \<noteq> []"
    and "reader_text dec cs = frames_text pre @ f @ [nl, nl] @ rest"
  shows "stream dec parse resp =
     Inr (fst (run_frames parse pre)
          @ [\<lparr>ev_type = ''done'',
               ev_data = (case parse (data_text f) of
                            Some v \<Rightarrow> v
                          | None \<Rightarrow> JObj [(''raw'', JStr (data_text f))])\<rparr>])"
proof -
  have "frame_event parse f =
      Some (\<lparr>ev_type = ''done'',
              ev_data = (case parse (data_text f) of
                           Some v \<Rightarrow> v
                         | None \<Rightarrow> JObj [(''raw'', JStr (data_text f))])\<rparr>, True)"
    using assms(5,6) by (simp add: frame_event_eq or_content_def)
  from stream_at_frame[OF assms(1,2,3,4) this assms(7)] show ?thesis by simp
qed

theorem done_with_data_stops_witness:
  \<open>ok (ok_response [''event: content\<newline>data: {"text":"chunk1"}\<newline>\<newline>event: done\<newline>data: {}\<newline>\<newline>event: content\<newline>da'', ''ta: {}\<newline>\<newline>''])
   \<and> body (ok_response [''event: content\<newline>data: {"text":"chunk1"}\<newline>\<newline>event: done\<newline>data: {}\<newline>\<newline>event: content\<newline>da'', ''ta: {}\<newline>\<newline>''])
       = Some [''event: content\<newline>data: {"text":"chunk1"}\<newline>\<newline>event: done\<newline>data: {}\<newline>\<newline>event: content\<newline>da'', ''ta: {}\<newline>\<newline>'']
   \<and> is_frame ''event: content\<newline>data: {"text":"chunk1"}''
   \<and> frame_type ''event: content\<newline>data: {"text":"chunk1"}'' = Some ''content''
   \<and> is_frame ''event: done\<newline>data: {}''
   \<and> frame_type ''event: done\<newline>data: {}'' = Some ''done''
   \<and> data_lines ''event: done\<newline>data: {}'' \<noteq> []
   \<and> reader_text utf8 [''event: content\<newline>data: {"text":"chunk1"}\<newline>\<newline>event: done\<newline>data: {}\<newline>\<newline>event: content\<newline>da'', ''ta: {}\<newline>\<newline>'']
       = frames_text [''event: content\<newline>data: {"text":"chunk1"}''] @ ''event: done\<newline>data: {}'' @ [nl, nl]
           @ ''event: content\<newline>data: {}\<newline>\<newline>''
   \<and> stream utf8 parse_examples (ok_response [''event: content\<newline>data: {"text":"chunk1"}\<newline>\<newline>event: done\<newline>data: {}\<newline>\<newline>event: content\<newline>da'', ''ta: {}\<newline>\<newline>''])
       = Inr [\<lparr>ev_type = ''content'', ev_data = JObj [(''text'', JStr ''chunk1'')]\<rparr>,
              \<lparr>ev_type = ''done'', ev_data = JObj []\<rparr>]\<close>
proof -
  let ?cs = \<open>[''event: content\<newline>data: {"text":"chunk1"}\<newline>\<newline>event: done\<newline>data: {}\<newline>\<newline>event: content\<newline>da'', ''ta: {}\<newline>\<newline>'']\<close>
  let ?p = \<open>''event: content\<newline>data: {"text":"chunk1"}''\<close>
  let ?f = \<open>''event: done\<newline>data: {}''\<close>
  have h1: "ok (ok_response ?cs)" and h2: "body (ok_response ?cs) = Some ?cs"
    by (simp_all add: ok_response_def)
  have h3a: "is_frame ?p" and h4: "is_frame ?f"
    by (simp_all add: nl_def)
  have h3b: "frame_type ?p = Some ''content''"
    by code_simp
  have h5: "frame_type ?f = Some ''done''"
    by code_simp
  have h6: "data_lines ?f \<noteq> []"
    by code_simp
  have h7: \<open>reader_text utf8 ?cs = frames_text [?p] @ ?f @ [nl, nl] @ ''event: content\<newline>data: {}\<newline>\<newline>''\<close>
    by code_simp
  have h3c: "\<not> (frame_type ?p = Some ''done'' \<and> data_lines ?p \<noteq> [])"
    by code_simp
  have h3: "\<forall>p\<in>set [?p]. is_frame p \<and> \<not> (frame_type p = Some ''done'' \<and> data_lines p \<noteq> [])"
    using h3a h3c by (simp only: list.set ball_simps simp_thms)
  have v: \<open>fst (run_frames parse_examples [?p])
          @ [\<lparr>ev_type = ''done'',
               ev_data = (case parse_examples (data_text ?f) of
                            Some v \<Rightarrow> v
                          | None \<Rightarrow> JObj [(''raw'', JStr (data_text ?f))])\<rparr>]
       = [\<lparr>ev_type = ''content'', ev_data = JObj [(''text'', JStr ''chunk1'')]\<rparr>,
          \<lparr>ev_type = ''done'', ev_data = JObj []\<rparr>]\<close>
    by code_simp
  have c: \<open>stream utf8 parse_examples (ok_response ?cs)
       = Inr [\<lparr>ev_type = ''content'', ev_data = JObj [(''text'', JStr ''chunk1'')]\<rparr>,
              \<lparr>ev_type = ''done'', ev_data = JObj []\<rparr>]\<close>
    using done_with_data_stops[OF h1 h2 h3 h4 h5 h6 h7, of parse_examples] by (simp only: v)
  show ?thesis
    by (intro conjI h1 h2 h3a h3b h4 h5 h6 h7 c)
qed

subsection \<open>Payloads that do not parse\<close>

text \<open>
  C4, as stated, fails in \<open>streamMessage\<close>: a \<open>data: \<close> line whose text does not parse
  yields no event at all.
\<close>

theorem malformed_payload_counterexample:
  \<open>streamMessage utf8 parse_examples
      (ok_response [''event: content\<newline>data: not-json-{{{\<newline>\<newline>'']) = Inr []\<close>
  by code_simp

text \<open>
  C4, amended. In \<open>MessagesAPI.stream\<close> a frame with a \<open>data:\<close> line whose data text does
  not parse yields an event whose data is \<open>{raw: dataText}\<close>, and unless the frame's type is
  \<open>done\<close> the decoding goes on with the text after it. In \<open>streamMessage\<close> a \<open>data: \<close> line
  whose text does not parse yields no event, and the decoding goes on with the lines after it.
\<close>

theorem malformed_payload_fallback:
  assumes "ok resp" and "body resp = Some cs"
    and "\<forall>p\<in>set pre. is_frame p \<and> \<not> (frame_type p = Some ''done'' \<and> data_lines p \<noteq> [])"
    and "is_frame f" and "data_lines f \<noteq> []" and "parse (data_text f) = None"
    and "frame_type f \<noteq> Some ''done''"
    and "reader_text dec cs = frames_text pre @ f @ [nl, nl] @ rest"
    and "prefix ''data: '' line" and "parse (drop 6 line) = None"
    and "stream_lines dec bs = before @ line # after"
  shows "stream dec parse resp =
     Inr (fst (run_frames parse pre)
          @ \<lparr>ev_type = or_content (frame_type f),
              ev_data = JObj [(''raw'', JStr (data_text f))]\<rparr>
          # text_events parse rest)
   \<and> streamMessage dec parse (resp\<lparr>body := Some bs\<rparr>) =
     Inr (fst (streamMessage_lines parse [] before)
          @ fst (streamMessage_lines parse (snd (streamMessage_lines parse [] before)) after))"
proof -
  have "frame_event parse f =
      Some (\<lparr>ev_type = or_content (frame_type f),
              ev_data = JObj [(''raw'', JStr (data_text f))]\<rparr>, False)"
    using assms(5,6,7) by (simp add: frame_event_eq)
  from stream_at_frame[OF assms(1,2,3,4) this assms(8)]
  have a: "stream dec parse resp =
     Inr (fst (run_frames parse pre)
          @ \<lparr>ev_type = or_content (frame_type f),
              ev_data = JObj [(''raw'', JStr (data_text f))]\<rparr>
          # text_events parse rest)"
    by simp
  have ne: "\<not> prefix ''event: '' line"
    using assms(9) by (cases line) auto
  have "streamMessage_lines parse t (line # after) = streamMessage_lines parse t after" for t
    using ne assms(9,10) by simp
  then have "fst (streamMessage_lines parse [] (before @ line # after)) =
      fst (streamMessage_lines parse [] before)
      @ fst (streamMessage_lines parse (snd (streamMessage_lines parse [] before)) after)"
    by (simp add: streamMessage_lines_append)
  then have b: "streamMessage dec parse (resp\<lparr>body := Some bs\<rparr>) =
     Inr (fst (streamMessage_lines parse [] before)
          @ fst (streamMessage_lines parse (snd (streamMessage_lines parse [] before)) after))"
    using assms(1,11) by (simp add: streamMessage_whole_upd)
  show ?thesis using a b by (rule conjI)
qed

theorem malformed_payload_fallback_witness:
  \<open>ok (ok_response [''event: message.start\<newline>data: {}\<newline>\<newline>event: content\<newline>data: not-json-{{{\<newline>\<newline>event: done\<newline>data: {}\<newline>\<newline>''])
   \<and> body (ok_response [''event: message.start\<newline>data: {}\<newline>\<newline>event: content\<newline>data: not-json-{{{\<newline>\<newline>event: done\<newline>data: {}\<newline>\<newline>''])
       = Some [''event: message.start\<newline>data: {}\<newline>\<newline>event: content\<newline>data: not-json-{{{\<newline>\<newline>event: done\<newline>data: {}\<newline>\<newline>'']
   \<and> is_frame ''event: message.start\<newline>data: {}''
   \<and> frame_type ''event: message.start\<newline>data: {}'' = Some ''message.start''
   \<and> is_frame ''event: content\<newline>data: not-json-{{{''
   \<and> data_lines ''event: content\<newline>data: not-json-{{{'' \<noteq> []
   \<and> parse_examples (data_text ''event: content\<newline>data: not-json-{{{'') = None
   \<and> frame_type ''event: content\<newline>data: not-json-{{{'' \<noteq> Some ''done''
   \<and> reader_text utf8 [''event: message.start\<newline>data: {}\<newline>\<newline>event: content\<newline>data: not-json-{{{\<newline>\<newline>event: done\<newline>data: {}\<newline>\<newline>'']
       = frames_text [''event: message.start\<newline>data: {}''] @ ''event: content\<newline>data: not-json-{{{'' @ [nl, nl]
           @ ''event: done\<newline>data: {}\<newline>\<newline>''
   \<and> prefix ''data: '' ''data: not-json-{{{''
   \<and> parse_examples (drop 6 ''data: not-json-{{{'') = None
   \<and> stream_lines utf8 [''event: message.start\<newline>data: {}\<newline>\<newline>event: content\<newline>data: not-json-{{{\<newline>\<newline>event: done\<newline>data: {}\<newline>\<newline>'']
       = [''event: message.start'', ''data: {}'', '''', ''event: content'']
           @ ''data: not-json-{{{'' # ['''', ''event: done'', ''data: {}'', '''']
   \<and> stream utf8 parse_examples (ok_response [''event: message.start\<newline>data: {}\<newline>\<newline>event: content\<newline>data: not-json-{{{\<newline>\<newline>event: done\<newline>data: {}\<newline>\<newline>''])
       = Inr [\<lparr>ev_type = ''message.start'', ev_data = JObj []\<rparr>,
              \<lparr>ev_type = ''content'', ev_data = JObj [(''raw'', JStr ''not-json-{{{'')]\<rparr>,
              \<lparr>ev_type = ''done'', ev_data = JObj []\<rparr>]
   \<and> streamMessage utf8 parse_examples (ok_response [''event: message.start\<newline>data: {}\<newline>\<newline>event: content\<newline>data: not-json-{{{\<newline>\<newline>event: done\<newline>data: {}\<newline>\<newline>''])
       = Inr [\<lparr>ev_type = ''message.start'', ev_data = JObj []\<rparr>,
              \<lparr>ev_type = ''done'', ev_data = JObj []\<rparr>]\<close>
proof -
  let ?cs = \<open>[''event: message.start\<newline>data: {}\<newline>\<newline>event: content\<newline>data: not-json-{{{\<newline>\<newline>event: done\<newline>data: {}\<newline>\<newline>'']\<close>
  let ?p = \<open>''event: message.start\<newline>data: {}''\<close>
  let ?f = \<open>''event: content\<newline>data: not-json-{{{''\<close>
  let ?rest = \<open>''event: done\<newline>data: {}\<newline>\<newline>''\<close>
  let ?line = \<open>''data: not-json-{{{''\<close>
  let ?before = \<open>[''event: message.start'', ''data: {}'', '''', ''event: content'']\<close>
  let ?after = \<open>['''', ''event: done'', ''data: {}'', '''']\<close>
  have h1: "ok (ok_response ?cs)" and h2: "body (ok_response ?cs) = Some ?cs"
    by (simp_all add: ok_response_def)
  have h3a: "is_frame ?p" and h4: "is_frame ?f"
    by (simp_all add: nl_def)
  have h3b: "frame_type ?p = Some ''message.start''"
    by code_simp
  have h3c: "\<not> (frame_type ?p = Some ''done'' \<and> data_lines ?p \<noteq> [])"
    by code_simp
  have h3: "\<forall>p\<in>set [?p]. is_frame p \<and> \<not> (frame_type p = Some ''done'' \<and> data_lines p \<noteq> [])"
    using h3a h3c by (simp only: list.set ball_simps simp_thms)
  have h5: "data_lines ?f \<noteq> []"
    by code_simp
  have h6: "parse_examples (data_text ?f) = None"
    by code_simp
  have h7: "frame_type ?f \<noteq> Some ''done''"
    by code_simp
  have h8: "reader_text utf8 ?cs = frames_text [?p] @ ?f @ [nl, nl] @ ?rest"
    by code_simp
  have h9: "prefix ''data: '' ?line"
    by simp
  have h10: "parse_examples (drop 6 ?line) = None"
    by code_simp
  have h11: "stream_lines utf8 ?cs = ?before @ ?line # ?after"
    by code_simp
  note c = malformed_payload_fallback[OF h1 h2 h3 h4 h5 h6 h7 h8 h9 h10 h11]
  have v1: "fst (run_frames parse_examples [?p])
          @ \<lparr>ev_type = or_content (frame_type ?f), ev_data = JObj [(''raw'', JStr (data_text ?f))]\<rparr>
          # text_events parse_examples ?rest
       = [\<lparr>ev_type = ''message.start'', ev_data = JObj []\<rparr>,
          \<lparr>ev_type = ''content'', ev_data = JObj [(''raw'', JStr ''not-json-{{{'')]\<rparr>,
          \<lparr>ev_type = ''done'', ev_data = JObj []\<rparr>]"
    by code_simp
  have v2: "fst (streamMessage_lines parse_examples [] ?before)
          @ fst (streamMessage_lines parse_examples (snd (streamMessage_lines parse_examples [] ?before)) ?after)
       = [\<lparr>ev_type = ''message.start'', ev_data = JObj []\<rparr>,
          \<lparr>ev_type = ''done'', ev_data = JObj []\<rparr>]"
    by code_simp
  have u: "(ok_response ?cs)\<lparr>body := Some ?cs\<rparr> = ok_response ?cs"
    by (simp add: ok_response_def)
  have c1: "stream utf8 parse_examples (ok_response ?cs)
       = Inr [\<lparr>ev_type = ''message.start'', ev_data = JObj []\<rparr>,
              \<lparr>ev_type = ''content'', ev_data = JObj [(''raw'', JStr ''not-json-{{{'')]\<rparr>,
              \<lparr>ev_type = ''done'', ev_data = JObj []\<rparr>]"
    using c[THEN conjunct1] by (simp only: v1)
  have c2: "streamMessage utf8 parse_examples (ok_response ?cs)
       = Inr [\<lparr>ev_type = ''message.start'', ev_data = JObj []\<rparr>,
              \<lparr>ev_type = ''done'', ev_data = JObj []\<rparr>]"
    using c[THEN conjunct2] by (simp only: v2 u)
  show ?thesis
    by (intro conjI h1 h2 h3a h3b h4 h5 h6 h7 h8 h9 h10 h11 c1 c2)
qed

subsection \<open>The type of a frame\<close>

text \<open>
  C7, as stated, fails: when the last \<open>event:\<close> line of the frame has an empty value, the
  event is emitted with the type \<open>content\<close>, which is neither that value nor the value of
  the earlier \<open>event:\<close> line.
\<close>

theorem empty_last_event_line_counterexample:
  \<open>stream utf8 parse_examples
      (ok_response [''event: tool.start\<newline>data: {}\<newline>event:\<newline>\<newline>''])
     = Inr [\<lparr>ev_type = ''content'', ev_data = JObj []\<rparr>]\<close>
  by code_simp

text \<open>
  C7, amended. In a frame of \<open>MessagesAPI.stream\<close> that has a \<open>data:\<close> line, the event is
  emitted with the value of the last \<open>event:\<close> line of the frame (the text after \<open>event:\<close> and
  the white space that follows it), wherever that line stands among the \<open>data:\<close> lines and
  whatever \<open>event:\<close> lines came before, when that value is not empty; when it is empty the
  type is \<open>content\<close>.
\<close>

theorem last_event_line_wins:
  assumes "data_lines chunk \<noteq> []" and "event_lines chunk = earlier @ [line]"
  shows "map_option (\<lambda>(e, stop). ev_type e) (frame_event parse chunk) =
     Some (if strip_space (drop 6 line) = [] then ''content'' else strip_space (drop 6 line))"
  using assms by (simp add: frame_event_eq frame_type_def or_content_def)

theorem last_event_line_wins_witness:
  \<open>data_lines ''event: content\<newline>data: {}\<newline>event:  tool.complete'' \<noteq> []
   \<and> event_lines ''event: content\<newline>data: {}\<newline>event:  tool.complete''
       = [''event: content''] @ [''event:  tool.complete'']
   \<and> map_option (\<lambda>(e, stop). ev_type e)
        (frame_event parse_examples ''event: content\<newline>data: {}\<newline>event:  tool.complete'')
       = Some ''tool.complete''\<close>
proof -
  let ?f = \<open>''event: content\<newline>data: {}\<newline>event:  tool.complete''\<close>
  have h1: "data_lines ?f \<noteq> []"
    by code_simp
  have h2: "event_lines ?f = [''event: content''] @ [''event:  tool.complete'']"
    by code_simp
  have v: "(if strip_space (drop 6 ''event:  tool.complete'') = [] then ''content''
            else strip_space (drop 6 ''event:  tool.complete'')) = ''tool.complete''"
    by code_simp
  have c: "map_option (\<lambda>(e, stop). ev_type e) (frame_event parse_examples ?f) = Some ''tool.complete''"
    using last_event_line_wins[OF h1 h2, of parse_examples] by (simp only: v)
  show ?thesis
    by (intro conjI h1 h2 c)
qed

subsection \<open>A response that is not \<open>ok\<close>\<close>

text \<open>
  C5, as stated, fails in \<open>streamMessage\<close>: for the status 401 with the body
  \<open>Unauthorized\<close> the error is \<open>Unknown error\<close>, with neither the status nor the body in it.
\<close>

theorem rejection_counterexample:
  \<open>streamMessage utf8 parse_examples
      \<lparr>ok = False, status = 401, text_of = ''Unauthorized'', body = None\<rparr>
     = Inl (Error (JStr ''Unknown error''))\<close>
  by code_simp

text \<open>
  C5, amended. For a response that is not \<open>ok\<close>, \<open>MessagesAPI.stream\<close> fails before it
  yields any event, with an error whose message is \<open>Stream request failed:\<close>, the status
  in decimal and the text of the body, so that both stand in the message.
  \<open>streamMessage\<close> fails before it yields any event as well, with an error built from the
  body read as JSON: \<open>Unknown error\<close> when the body is not JSON, a \<open>TypeError\<close> when it is
  \<open>null\<close>, otherwise the \<open>error\<close> property of the value when truthy, else its \<open>message\<close>
  property when truthy, else \<open>HTTP\<close> and the status.
\<close>

theorem rejected_request_error:
  assumes "\<not> ok resp"
    and "msg = ''Stream request failed: '' @ show_nat (status resp) @ '' '' @ text_of resp"
  shows "stream dec parse resp = Inl (Error (JStr msg))
   \<and> sublist (show_nat (status resp)) msg
   \<and> sublist (text_of resp) msg
   \<and> streamMessage dec parse resp =
       Inl (case parse (text_of resp) of
              None \<Rightarrow> Error (JStr ''Unknown error'')
            | Some v \<Rightarrow>
                if v = JNull then TypeError
                else if truthy (get_prop v ''error'') then Error (the (get_prop v ''error''))
                else if truthy (get_prop v ''message'') then Error (the (get_prop v ''message''))
                else Error (JStr (''HTTP '' @ show_nat (status resp))))"
proof -
  have "sublist (show_nat (status resp)) msg"
    unfolding assms(2) by (rule sublist_appendI)
  moreover have "sublist (text_of resp) msg"
    unfolding assms(2) sublist_def
    by (rule exI[of _ "''Stream request failed: '' @ show_nat (status resp) @ '' ''"]) simp
  moreover have "stream dec parse resp = Inl (Error (JStr msg))"
    using assms by (simp add: stream_def)
  moreover have "streamMessage dec parse resp =
       Inl (case parse (text_of resp) of
              None \<Rightarrow> Error (JStr ''Unknown error'')
            | Some v \<Rightarrow>
                if v = JNull then TypeError
                else if truthy (get_prop v ''error'') then Error (the (get_prop v ''error''))
                else if truthy (get_prop v ''message'') then Error (the (get_prop v ''message''))
                else Error (JStr (''HTTP '' @ show_nat (status resp))))"
  proof (cases "parse (text_of resp)")
    case None
    have "rejection (JObj [(''error'', JStr ''Unknown error'')]) (status resp) =
        Error (JStr ''Unknown error'')"
      unfolding rejection_def by simp
    then show ?thesis
      using assms(1) None by (simp add: streamMessage_def streamMessage_error_def)
  next
    case (Some v)
    then show ?thesis
      using assms(1) by (simp add: streamMessage_def streamMessage_error_def rejection_def)
  qed
  ultimately show ?thesis by blast
qed

theorem rejected_request_error_witness:
  \<open>\<not> ok \<lparr>ok = False, status = 401, text_of = ''Unauthorized'', body = None\<rparr>
   \<and> ''Stream request failed: 401 Unauthorized''
       = ''Stream request failed: ''
         @ show_nat (status \<lparr>ok = False, status = 401, text_of = ''Unauthorized'', body = None\<rparr>)
         @ '' '' @ text_of \<lparr>ok = False, status = 401, text_of = ''Unauthorized'', body = None\<rparr>
   \<and> stream utf8 parse_examples \<lparr>ok = False, status = 401, text_of = ''Unauthorized'', body = None\<rparr>
       = Inl (Error (JStr ''Stream request failed: 401 Unauthorized''))
   \<and> sublist ''401'' ''Stream request failed: 401 Unauthorized''
   \<and> sublist ''Unauthorized'' ''Stream request failed: 401 Unauthorized''
   \<and> streamMessage utf8 parse_examples \<lparr>ok = False, status = 401, text_of = ''Unauthorized'', body = None\<rparr>
       = Inl (Error (JStr ''Unknown error''))
   \<and> \<not> ok \<lparr>ok = False, status = 401, text_of = ''{}'', body = None\<rparr>
   \<and> ''Stream request failed: 401 {}''
       = ''Stream request failed: ''
         @ show_nat (status \<lparr>ok = False, status = 401, text_of = ''{}'', body = None\<rparr>)
         @ '' '' @ text_of \<lparr>ok = False, status = 401, text_of = ''{}'', body = None\<rparr>
   \<and> streamMessage utf8 parse_examples \<lparr>ok = False, status = 401, text_of = ''{}'', body = None\<rparr>
       = Inl (Error (JStr ''HTTP 401''))\<close>
proof -
  let ?r = "\<lparr>ok = False, status = 401, text_of = ''Unauthorized'', body = None\<rparr>"
  let ?q = "\<lparr>ok = False, status = 401, text_of = ''{}'', body = None\<rparr>"
  let ?build = "\<lambda>r. case parse_examples (text_of r) of
              None \<Rightarrow> Error (JStr ''Unknown error'')
            | Some v \<Rightarrow>
                if v = JNull then TypeError
                else if truthy (get_prop v ''error'') then Error (the (get_prop v ''error''))
                else if truthy (get_prop v ''message'') then Error (the (get_prop v ''message''))
                else Error (JStr (''HTTP '' @ show_nat (status r)))"
  have h1: "\<not> ok ?r" and k1: "\<not> ok ?q"
    by simp_all
  have h2: "''Stream request failed: 401 Unauthorized''
       = ''Stream request failed: '' @ show_nat (status ?r) @ '' '' @ text_of ?r"
    by code_simp
  have k2: "''Stream request failed: 401 {}''
       = ''Stream request failed: '' @ show_nat (status ?q) @ '' '' @ text_of ?q"
    by code_simp
  note c = rejected_request_error[OF h1 h2, of utf8 parse_examples]
  note d = rejected_request_error[OF k1 k2, of utf8 parse_examples]
  have n: "show_nat (status ?r) = ''401''" and t: "text_of ?r = ''Unauthorized''"
    by code_simp+
  have e: "?build ?r = Error (JStr ''Unknown error'')"
    by code_simp
  have e': "?build ?q = Error (JStr ''HTTP 401'')"
    by code_simp
  have c1: "stream utf8 parse_examples ?r = Inl (Error (JStr ''Stream request failed: 401 Unauthorized''))"
    using c by (rule conjunct1)
  have c2: "sublist ''401'' ''Stream request failed: 401 Unauthorized''"
    using c[THEN conjunct2, THEN conjunct1] by (simp only: n)
  have c3: "sublist ''Unauthorized'' ''Stream request failed: 401 Unauthorized''"
    using c[THEN conjunct2, THEN conjunct2, THEN conjunct1] by (simp only: t)
  have c4: "streamMessage utf8 parse_examples ?r = Inl (Error (JStr ''Unknown error''))"
    using c[THEN conjunct2, THEN conjunct2, THEN conjunct2] by (simp only: e)
  have d4: "streamMessage utf8 parse_examples ?q = Inl (Error (JStr ''HTTP 401''))"
    using d[THEN conjunct2, THEN conjunct2, THEN conjunct2] by (simp only: e')
  show ?thesis
    by (intro conjI h1 h2 c1 c2 c3 c4 k1 k2 d4)
qed

subsection \<open>The buffer\<close>

lemma suffix_last_js_split: "suffix (last (js_split sep s)) s"
proof (induction sep s rule: js_split.induct)
  case (1 sep s)
  show ?case
  proof (cases s)
    case Nil
    then show ?thesis by (simp add: js_split_Nil)
  next
    case (Cons c r)
    show ?thesis
    proof (cases "sep \<noteq> [] \<and> prefix sep s")
      case True
      then obtain r' where s: "s = sep @ r'" by (auto simp: prefix_def)
      have "js_split sep s = [] # js_split sep r'"
        using True s js_split_match[of sep r'] by simp
      moreover have "suffix (last (js_split sep r')) r'"
        using "1.IH"(1) True s Cons by simp
      ultimately show ?thesis
        using s by (simp add: js_split_nonempty suffix_append)
    next
      case False
      have sp: "js_split sep s = (c # hd (js_split sep r)) # tl (js_split sep r)"
        using False Cons by (simp add: js_split_nomatch)
      show ?thesis
      proof (cases "tl (js_split sep r)")
        case Nil
        then have "js_split sep s = [c # hd (js_split sep r)]" using sp by simp
        then have "js_split sep s = [s]" using js_split_single by blast
        then show ?thesis by simp
      next
        case (Cons q qs)
        have "suffix (last (js_split sep r)) r"
          using "1.IH"(2) False \<open>s = c # r\<close> by simp
        moreover have "last (js_split sep s) = last (js_split sep r)"
          using sp Cons js_split_nonempty[of sep r] by (cases "js_split sep r") auto
        ultimately show ?thesis
          using \<open>s = c # r\<close> by (simp add: suffix_Cons)
      qed
    qed
  qed
qed

lemma last_js_split_after:
  "last (js_split sep s) = s \<or> suffix (sep @ last (js_split sep s)) s"
proof (induction sep s rule: js_split.induct)
  case (1 sep s)
  show ?case
  proof (cases s)
    case Nil
    then show ?thesis by (simp add: js_split_Nil)
  next
    case (Cons c r)
    show ?thesis
    proof (cases "sep \<noteq> [] \<and> prefix sep s")
      case True
      then obtain r' where s: "s = sep @ r'" by (auto simp: prefix_def)
      have sp: "js_split sep s = [] # js_split sep r'"
        using True s js_split_match[of sep r'] by simp
      have "last (js_split sep r') = r' \<or> suffix (sep @ last (js_split sep r')) r'"
        using "1.IH"(1) True s Cons by simp
      then show ?thesis
      proof
        assume "last (js_split sep r') = r'"
        then have "sep @ last (js_split sep s) = s"
          using sp s by (simp add: js_split_nonempty)
        then show ?thesis by (metis suffix_order.refl)
      next
        assume "suffix (sep @ last (js_split sep r')) r'"
        then show ?thesis
          using sp s by (simp add: js_split_nonempty suffix_append)
      qed
    next
      case False
      have sp: "js_split sep s = (c # hd (js_split sep r)) # tl (js_split sep r)"
        using False Cons by (simp add: js_split_nomatch)
      show ?thesis
      proof (cases "tl (js_split sep r)")
        case Nil
        then have "js_split sep s = [c # hd (js_split sep r)]" using sp by simp
        then have "js_split sep s = [s]" using js_split_single by blast
        then show ?thesis by simp
      next
        case (Cons q qs)
        have l: "last (js_split sep s) = last (js_split sep r)"
          using sp Cons js_split_nonempty[of sep r] by (cases "js_split sep r") auto
        have two: "js_split sep r \<noteq> [r]"
          using Cons by auto
        have "last (js_split sep r) = r \<or> suffix (sep @ last (js_split sep r)) r"
          using "1.IH"(2) False \<open>s = c # r\<close> by simp
        then show ?thesis
        proof
          assume "last (js_split sep r) = r"
          then have "js_split sep r = [r]"
            using js_split_last_fixed[of sep r] by simp
          then show ?thesis using two by simp
        next
          assume "suffix (sep @ last (js_split sep r)) r"
          then show ?thesis
            using l \<open>s = c # r\<close> by (simp add: suffix_Cons)
        qed
      qed
    qed
  qed
qed

lemma js_split_sublist:
  "sep \<noteq> [] \<Longrightarrow> length (js_split sep (ps @ sep @ ss)) \<ge> 2"
proof (induction ps)
  case Nil
  then show ?case
    using js_split_match[of sep ss] js_split_nonempty[of sep ss]
    by (cases "js_split sep ss") auto
next
  case (Cons c ps)
  show ?case
  proof (cases "prefix sep (c # ps @ sep @ ss)")
    case True
    then obtain r where r: "c # ps @ sep @ ss = sep @ r" by (auto simp: prefix_def)
    have "js_split sep (sep @ r) = [] # js_split sep r"
      using Cons.prems js_split_match by simp
    then show ?thesis
      using r js_split_nonempty[of sep r] by (cases "js_split sep r") auto
  next
    case False
    then have "js_split sep (c # ps @ sep @ ss) =
        (c # hd (js_split sep (ps @ sep @ ss))) # tl (js_split sep (ps @ sep @ ss))"
      by (intro js_split_nomatch) simp
    moreover have "length (tl (js_split sep (ps @ sep @ ss))) \<ge> 1"
      using Cons by simp
    ultimately show ?thesis by simp
  qed
qed

lemma single_piece_no_sep:
  "sep \<noteq> [] \<Longrightarrow> js_split sep b = [b] \<Longrightarrow> \<not> sublist sep b"
proof
  assume "sep \<noteq> []" and one: "js_split sep b = [b]" and "sublist sep b"
  then obtain ps ss where "b = ps @ sep @ ss" by (auto simp: sublist_def)
  then have "length (js_split sep b) \<ge> 2"
    using js_split_sublist[OF \<open>sep \<noteq> []\<close>, of ps ss] by simp
  then show False using one by simp
qed

lemma last_js_split_no_sep: "sep \<noteq> [] \<Longrightarrow> \<not> sublist sep (last (js_split sep s))"
  using single_piece_no_sep[OF _ js_split_last_fixed] by blast

lemma stream_buffers_nth:
  "js_split [nl, nl] buffer = [buffer] \<Longrightarrow> i < length (stream_buffers parse buffer vs) \<Longrightarrow>
   stream_buffers parse buffer vs ! i = last (js_split [nl, nl] (buffer @ concat (take (Suc i) vs)))"
proof (induction vs arbitrary: buffer i)
  case Nil
  then show ?case by simp
next
  case (Cons v vs)
  let ?b = "last (js_split [nl, nl] (buffer @ v))"
  have fixed: "js_split [nl, nl] ?b = [?b]"
    by (rule js_split_last_fixed)
  show ?case
  proof (cases i)
    case 0
    then show ?thesis by (simp add: stream_step_def Let_def split_beta)
  next
    case (Suc k)
    then have run: "\<not> snd (run_frames parse (butlast (js_split [nl, nl] (buffer @ v))))"
      and k: "k < length (stream_buffers parse ?b vs)"
      using Cons.prems(2) by (auto simp: stream_step_def Let_def split_beta split: if_splits)
    have "stream_buffers parse (buffer) (v # vs) ! i = stream_buffers parse ?b vs ! k"
      using Suc run by (simp add: stream_step_def Let_def split_beta)
    also have "\<dots> = last (js_split [nl, nl] (?b @ concat (take (Suc k) vs)))"
      using Cons.IH[OF fixed k] .
    also have "\<dots> = last (js_split [nl, nl] ((buffer @ v) @ concat (take (Suc k) vs)))"
      by (rule last_js_split_append[symmetric])
    finally show ?thesis using Suc by simp
  qed
qed

lemma streamMessage_buffers_nth:
  "js_split [nl] buffer = [buffer] \<Longrightarrow> i < length cs \<Longrightarrow>
   streamMessage_buffers dec parse (st, buffer, t) cs ! i =
     last (js_split [nl] (buffer @ snd (d_feed dec st (concat (take (Suc i) cs)))))"
proof (induction cs arbitrary: st buffer t i)
  case Nil
  then show ?case by simp
next
  case (Cons c cs)
  let ?st = "fst (d_feed dec st c)"
  let ?text = "snd (d_feed dec st c)"
  let ?b = "last (js_split [nl] (buffer @ ?text))"
  let ?t = "snd (streamMessage_lines parse t (butlast (js_split [nl] (buffer @ ?text))))"
  have fixed: "js_split [nl] ?b = [?b]"
    by (rule js_split_last_fixed)
  have step: "streamMessage_buffers dec parse (st, buffer, t) (c # cs) =
      ?b # streamMessage_buffers dec parse (?st, ?b, ?t) cs"
    by (simp add: streamMessage_step_def Let_def split_beta)
  show ?case
  proof (cases i)
    case 0
    then show ?thesis unfolding step by simp
  next
    case (Suc k)
    then have k: "k < length cs" using Cons.prems(2) by simp
    have "streamMessage_buffers dec parse (st, buffer, t) (c # cs) ! i =
        streamMessage_buffers dec parse (?st, ?b, ?t) cs ! k"
      using Suc unfolding step by simp
    also have "\<dots> = last (js_split [nl] (?b @ snd (d_feed dec ?st (concat (take (Suc k) cs)))))"
      using Cons.IH[OF fixed k] .
    also have "\<dots> = last (js_split [nl] ((buffer @ ?text) @ snd (d_feed dec ?st (concat (take (Suc k) cs)))))"
      by (rule last_js_split_append[symmetric])
    finally show ?thesis using Suc by (simp add: d_feed_append)
  qed
qed

text \<open>
  C6, as stated, fails in \<open>streamMessage\<close>, which splits at every newline: after a chunk
  with no blank line in it the buffer is the text after the last newline, not all the text.
\<close>

theorem line_buffer_counterexample:
  \<open>streamMessage_buffers utf8 parse_examples (d_init utf8, [], []) [''event: content\<newline>data: {}'']
     = [''data: {}'']
   \<and> js_split [nl, nl] ''event: content\<newline>data: {}'' = [''event: content\<newline>data: {}'']\<close>
  by code_simp

text \<open>
  C6, amended. In \<open>MessagesAPI.stream\<close>, at the end of every turn of the loop the buffer
  is the text received so far that follows the last blank-line delimiter found (all of it
  when none was found): a suffix of the text received with no delimiter in it, which is
  all the text or stands right after a delimiter. In \<open>streamMessage\<close> the same holds with the
  single newline in the place of the blank line.
\<close>

theorem buffer_holds_unresolved_text:
  assumes "i < length (stream_buffers parse [] vs)"
    and "received = concat (take (Suc i) vs)"
    and "buffer = stream_buffers parse [] vs ! i"
    and "j < length cs"
    and "decoded = decoded_text dec (take (Suc j) cs)"
    and "buffer' = streamMessage_buffers dec parse (d_init dec, [], []) cs ! j"
  shows "buffer = last (js_split [nl, nl] received)
   \<and> suffix buffer received \<and> \<not> sublist [nl, nl] buffer
   \<and> (buffer = received \<or> suffix ([nl, nl] @ buffer) received)
   \<and> buffer' = last (js_split [nl] decoded)
   \<and> suffix buffer' decoded \<and> \<not> sublist [nl] buffer'
   \<and> (buffer' = decoded \<or> suffix ([nl] @ buffer') decoded)"
proof -
  have a: "buffer = last (js_split [nl, nl] received)"
    using stream_buffers_nth[of "[]" i parse vs] assms(1,2,3) by (simp add: js_split_Nil)
  have b: "buffer' = last (js_split [nl] decoded)"
    using streamMessage_buffers_nth[of "[]" j cs dec parse "d_init dec" "[]"] assms(4,5,6)
    by (simp add: js_split_Nil decoded_text_def)
  show ?thesis
    unfolding a b
    using suffix_last_js_split[of "[nl, nl]" received] last_js_split_no_sep[of "[nl, nl]" received]
      last_js_split_after[of "[nl, nl]" received]
      suffix_last_js_split[of "[nl]" decoded] last_js_split_no_sep[of "[nl]" decoded]
      last_js_split_after[of "[nl]" decoded]
    by simp
qed

theorem buffer_holds_unresolved_text_witness:
  \<open>1 < length (stream_buffers parse_examples [] [''event: content\<newline>data: {}\<newline>'', ''\<newline>event: do'', ''ne\<newline>''])
   \<and> ''event: content\<newline>data: {}\<newline>\<newline>event: do''
       = concat (take (Suc 1) [''event: content\<newline>data: {}\<newline>'', ''\<newline>event: do'', ''ne\<newline>''])
   \<and> ''event: do''
       = stream_buffers parse_examples [] [''event: content\<newline>data: {}\<newline>'', ''\<newline>event: do'', ''ne\<newline>''] ! 1
   \<and> 0 < length [''event: content\<newline>data: {}\<newline>\<newline>event: do'', ''ne\<newline>'']
   \<and> ''event: content\<newline>data: {}\<newline>\<newline>event: do''
       = decoded_text utf8 (take (Suc 0) [''event: content\<newline>data: {}\<newline>\<newline>event: do'', ''ne\<newline>''])
   \<and> ''event: do''
       = streamMessage_buffers utf8 parse_examples (d_init utf8, [], [])
           [''event: content\<newline>data: {}\<newline>\<newline>event: do'', ''ne\<newline>''] ! 0
   \<and> ''event: do'' = last (js_split [nl, nl] ''event: content\<newline>data: {}\<newline>\<newline>event: do'')
   \<and> suffix ''event: do'' ''event: content\<newline>data: {}\<newline>\<newline>event: do''
   \<and> \<not> sublist [nl, nl] ''event: do''
   \<and> (''event: do'' = ''event: content\<newline>data: {}\<newline>\<newline>event: do''
        \<or> suffix ([nl, nl] @ ''event: do'') ''event: content\<newline>data: {}\<newline>\<newline>event: do'')
   \<and> ''event: do'' = last (js_split [nl] ''event: content\<newline>data: {}\<newline>\<newline>event: do'')
   \<and> suffix ''event: do'' ''event: content\<newline>data: {}\<newline>\<newline>event: do''
   \<and> \<not> sublist [nl] ''event: do''
   \<and> (''event: do'' = ''event: content\<newline>data: {}\<newline>\<newline>event: do''
        \<or> suffix ([nl] @ ''event: do'') ''event: content\<newline>data: {}\<newline>\<newline>event: do'')\<close>
proof -
  let ?vs = \<open>[''event: content\<newline>data: {}\<newline>'', ''\<newline>event: do'', ''ne\<newline>'']\<close>
  let ?cs = \<open>[''event: content\<newline>data: {}\<newline>\<newline>event: do'', ''ne\<newline>'']\<close>
  let ?r = \<open>''event: content\<newline>data: {}\<newline>\<newline>event: do''\<close>
  have h1: "1 < length (stream_buffers parse_examples [] ?vs)"
    by code_simp
  have h2: "?r = concat (take (Suc 1) ?vs)"
    by code_simp
  have h3: "''event: do'' = stream_buffers parse_examples [] ?vs ! 1"
    by code_simp
  have h4: "0 < length ?cs"
    by simp
  have h5: "?r = decoded_text utf8 (take (Suc 0) ?cs)"
    by code_simp
  have h6: "''event: do'' = streamMessage_buffers utf8 parse_examples (d_init utf8, [], []) ?cs ! 0"
    by code_simp
  note c = buffer_holds_unresolved_text[OF h1 h2 h3 h4 h5 h6]
  show ?thesis
    using c by (intro conjI h1 h2 h3 h4 h5 h6) blast+
qed

subsection \<open>The event type of \<open>streamMessage\<close>\<close>

lemma event_not_data_line: "prefix ''event: '' l \<Longrightarrow> \<not> prefix ''data: '' l"
  by (cases l) auto

lemma streamMessage_lines_type:
  "snd (streamMessage_lines parse t ls) =
     (if filter (prefix ''event: '') ls = [] then t
      else drop 7 (last (filter (prefix ''event: '') ls)))"
  by (induction ls arbitrary: t) (auto simp: split_beta split: option.splits)

lemma streamMessage_lines_type_empty:
  "snd (streamMessage_lines parse [] ls) = latest_event_type ls"
  by (simp add: streamMessage_lines_type latest_event_type_def split: list.splits)

lemma streamMessage_lines_one:
  "fst (streamMessage_lines parse t [l]) = line_event parse t l"
  using event_not_data_line[of l]
  by (auto simp: line_event_def split: option.splits)

lemma streamMessage_lines_spec:
  "fst (streamMessage_lines parse [] ls) =
     concat (map (\<lambda>i. line_event parse (latest_event_type (take i ls)) (ls ! i)) [0..<length ls])"
proof (induction ls rule: rev_induct)
  case Nil
  then show ?case by simp
next
  case (snoc x xs)
  let ?f = "\<lambda>i. line_event parse (latest_event_type (take i (xs @ [x]))) ((xs @ [x]) ! i)"
  let ?g = "\<lambda>i. line_event parse (latest_event_type (take i xs)) (xs ! i)"
  have same: "map ?f [0..<length xs] = map ?g [0..<length xs]"
    by (rule map_cong) (simp_all add: nth_append)
  have at_end: "?f (length xs) = line_event parse (latest_event_type xs) x"
    by simp
  have "fst (streamMessage_lines parse [] (xs @ [x])) =
      fst (streamMessage_lines parse [] xs) @ line_event parse (latest_event_type xs) x"
    by (simp only: streamMessage_lines_append fst_conv streamMessage_lines_one
        streamMessage_lines_type_empty)
  also have "\<dots> = concat (map ?g [0..<length xs]) @ ?f (length xs)"
    by (simp only: snoc at_end)
  also have "\<dots> = concat (map ?f ([0..<length xs] @ [length xs]))"
    by (simp only: same map_append concat_append list.map concat.simps append_Nil2)
  also have "[0..<length xs] @ [length xs] = [0..<length (xs @ [x])]"
    by simp
  finally show ?case .
qed

lemma line_event_no_type: "line_event parse [] l = []"
  by (simp add: line_event_def)

lemma latest_event_type_none:
  "\<forall>l\<in>set ls. \<not> prefix ''event: '' l \<Longrightarrow> latest_event_type ls = []"
  by (simp add: latest_event_type_def filter_empty_conv[THEN iffD2])

text \<open>
  C9, as stated, fails: a \<open>data: \<close> line that follows an \<open>event: \<close> line is not always
  emitted. After an \<open>event: \<close> line with an empty value, and when its text does not parse,
  it yields nothing.
\<close>

theorem event_type_counterexample:
  \<open>streamMessage utf8 parse_examples
      (ok_response [''event: content\<newline>event: \<newline>data: {}\<newline>\<newline>'']) = Inr []
   \<and> streamMessage utf8 parse_examples
      (ok_response [''event: content\<newline>\<newline>data: not-json-{{{\<newline>\<newline>'']) = Inr []\<close>
  by code_simp

text \<open>
  C9, amended. In \<open>streamMessage\<close> the event type is kept from one frame to the next: the
  events are, line by line over all the complete lines of the stream, what each \<open>data: \<close>
  line yields under the type set by the most recent \<open>event: \<close> line before it, wherever that
  line stands (blank lines do not reset it). A \<open>data: \<close> line yields one event of that type
  when the type is not empty and the text of the line parses, and nothing otherwise; so a
  \<open>data: \<close> line with no \<open>event: \<close> line before it yields nothing.
\<close>

theorem event_type_persists:
  assumes "ok resp" and "body resp = Some cs" and "ls = stream_lines dec cs"
  shows "streamMessage dec parse resp =
     Inr (concat (map (\<lambda>i. line_event parse (latest_event_type (take i ls)) (ls ! i))
                      [0..<length ls]))
   \<and> (\<forall>i<length ls. (\<forall>l\<in>set (take i ls). \<not> prefix ''event: '' l) \<longrightarrow>
         line_event parse (latest_event_type (take i ls)) (ls ! i) = [])"
  using assms
  by (simp add: streamMessage_whole streamMessage_lines_spec latest_event_type_none
      line_event_no_type)

theorem event_type_persists_witness:
  \<open>ok (ok_response [''data: {}\<newline>data: {}\<newline>\<newline>event: content\<newline>\<newline>da'', ''ta: {"text":"chunk1"}\<newline>\<newline>''])
   \<and> body (ok_response [''data: {}\<newline>data: {}\<newline>\<newline>event: content\<newline>\<newline>da'', ''ta: {"text":"chunk1"}\<newline>\<newline>''])
       = Some [''data: {}\<newline>data: {}\<newline>\<newline>event: content\<newline>\<newline>da'', ''ta: {"text":"chunk1"}\<newline>\<newline>'']
   \<and> [''data: {}'', ''data: {}'', '''', ''event: content'', '''', ''data: {"text":"chunk1"}'', '''']
       = stream_lines utf8 [''data: {}\<newline>data: {}\<newline>\<newline>event: content\<newline>\<newline>da'', ''ta: {"text":"chunk1"}\<newline>\<newline>'']
   \<and> streamMessage utf8 parse_examples (ok_response [''data: {}\<newline>data: {}\<newline>\<newline>event: content\<newline>\<newline>da'', ''ta: {"text":"chunk1"}\<newline>\<newline>''])
       = Inr [\<lparr>ev_type = ''content'', ev_data = JObj [(''text'', JStr ''chunk1'')]\<rparr>]
   \<and> latest_event_type (take 5 [''data: {}'', ''data: {}'', '''', ''event: content'', '''', ''data: {"text":"chunk1"}'', ''''])
       = ''content''
   \<and> (1::nat) < length [''data: {}'', ''data: {}'', '''', ''event: content'', '''', ''data: {"text":"chunk1"}'', '''']
   \<and> \<not> prefix ''event: '' ''data: {}''
   \<and> line_event parse_examples
        (latest_event_type (take 1 [''data: {}'', ''data: {}'', '''', ''event: content'', '''', ''data: {"text":"chunk1"}'', '''']))
        ([''data: {}'', ''data: {}'', '''', ''event: content'', '''', ''data: {"text":"chunk1"}'', ''''] ! 1) = []\<close>
proof -
  let ?cs = \<open>[''data: {}\<newline>data: {}\<newline>\<newline>event: content\<newline>\<newline>da'', ''ta: {"text":"chunk1"}\<newline>\<newline>'']\<close>
  let ?ls = \<open>[''data: {}'', ''data: {}'', '''', ''event: content'', '''', ''data: {"text":"chunk1"}'', '''']\<close>
  have h1: "ok (ok_response ?cs)" and h2: "body (ok_response ?cs) = Some ?cs"
    by (simp_all add: ok_response_def)
  have h3: "?ls = stream_lines utf8 ?cs"
    by code_simp
  note c = event_type_persists[OF h1 h2 h3, of parse_examples]
  have v: \<open>concat (map (\<lambda>i. line_event parse_examples (latest_event_type (take i ?ls)) (?ls ! i))
                      [0..<length ?ls])
       = [\<lparr>ev_type = ''content'', ev_data = JObj [(''text'', JStr ''chunk1'')]\<rparr>]\<close>
    by code_simp
  have c1: \<open>streamMessage utf8 parse_examples (ok_response ?cs)
       = Inr [\<lparr>ev_type = ''content'', ev_data = JObj [(''text'', JStr ''chunk1'')]\<rparr>]\<close>
    using c[THEN conjunct1] by (simp only: v)
  have t: "latest_event_type (take 5 ?ls) = ''content''"
    by code_simp
  have i: "(1::nat) < length ?ls"
    by simp
  have n: "\<not> prefix ''event: '' ''data: {}''"
    by simp
  have tk: "take 1 ?ls = [''data: {}'']"
    by simp
  have b: "\<forall>l\<in>set (take 1 ?ls). \<not> prefix ''event: '' l"
    using n by (simp only: tk list.set ball_simps simp_thms)
  have c2: "line_event parse_examples (latest_event_type (take 1 ?ls)) (?ls ! 1) = []"
    using c[THEN conjunct2] i b by blast
  show ?thesis
    by (intro conjI h1 h2 h3 c1 t i n c2)
qed

subsection \<open>A stream that ends without \<open>done\<close>\<close>

lemma run_frames_all:
  "\<forall>f\<in>set fs. data_lines f \<noteq> [] \<and> frame_type f \<noteq> Some ''done'' \<Longrightarrow>
   run_frames parse fs =
     (map (\<lambda>f. \<lparr>ev_type = or_content (frame_type f),
                  ev_data = (case parse (data_text f) of
                               Some v \<Rightarrow> v
                             | None \<Rightarrow> JObj [(''raw'', JStr (data_text f))])\<rparr>) fs,
      False)"
  by (induction fs) (simp_all add: frame_event_eq)

lemma js_split_line:
  "nl \<notin> set l \<Longrightarrow> js_split [nl] (l @ nl # rest) = l # js_split [nl] rest"
proof (induction l)
  case Nil
  show ?case using js_split_match[of "[nl]" rest] by simp
next
  case (Cons c l)
  have "js_split [nl] (c # l @ nl # rest) =
      (c # hd (js_split [nl] (l @ nl # rest))) # tl (js_split [nl] (l @ nl # rest))"
    using Cons.prems by (intro js_split_nomatch) simp
  then show ?case using Cons by simp
qed

lemma streamMessage_lines_type_after:
  "snd (streamMessage_lines parse t ls) = type_after t ls"
  by (simp add: streamMessage_lines_type type_after_def split: list.splits)

lemma streamMessage_lines_from:
  "fst (streamMessage_lines parse t ls) =
     concat (map (\<lambda>i. line_event parse (type_after t (take i ls)) (ls ! i)) [0..<length ls])"
proof (induction ls rule: rev_induct)
  case Nil
  then show ?case by simp
next
  case (snoc x xs)
  let ?f = "\<lambda>i. line_event parse (type_after t (take i (xs @ [x]))) ((xs @ [x]) ! i)"
  let ?g = "\<lambda>i. line_event parse (type_after t (take i xs)) (xs ! i)"
  have same: "map ?f [0..<length xs] = map ?g [0..<length xs]"
    by (rule map_cong) (simp_all add: nth_append)
  have at_end: "?f (length xs) = line_event parse (type_after t xs) x"
    by simp
  have "fst (streamMessage_lines parse t (xs @ [x])) =
      fst (streamMessage_lines parse t xs) @ line_event parse (type_after t xs) x"
    by (simp only: streamMessage_lines_append fst_conv streamMessage_lines_one
        streamMessage_lines_type_after)
  also have "\<dots> = concat (map ?g [0..<length xs]) @ ?f (length xs)"
    by (simp only: snoc at_end)
  also have "\<dots> = concat (map ?f ([0..<length xs] @ [length xs]))"
    by (simp only: same map_append concat_append list.map concat.simps append_Nil2)
  also have "[0..<length xs] @ [length xs] = [0..<length (xs @ [x])]"
    by simp
  finally show ?case .
qed

lemma concat_map_if:
  "concat (map (\<lambda>i. if P i then [e i] else []) xs) = map e (filter P xs)"
  by (induction xs) simp_all

lemma line_event_if:
  "line_event parse t l =
     (if prefix ''data: '' l \<and> t \<noteq> [] \<and> parse (drop 6 l) \<noteq> None
      then [\<lparr>ev_type = t, ev_data = the (parse (drop 6 l))\<rparr>] else [])"
  by (auto simp: line_event_def split: option.splits)

lemma streamMessage_lines_yielding:
  "fst (streamMessage_lines parse t ls) =
     map (\<lambda>i. \<lparr>ev_type = type_after t (take i ls), ev_data = the (parse (drop 6 (ls ! i)))\<rparr>)
       (yielding_lines parse t ls)"
  unfolding streamMessage_lines_from line_event_if yielding_lines_def
  by (rule concat_map_if)

lemma no_newline_in_piece: "js_split [nl] l = [l] \<Longrightarrow> nl \<notin> set l"
proof
  assume one: "js_split [nl] l = [l]" and "nl \<in> set l"
  then obtain ps ss where "l = ps @ [nl] @ ss"
    by (auto dest: split_list)
  then have "sublist [nl] l"
    by (auto simp: sublist_def)
  then show False
    using single_piece_no_sep[OF _ one] by simp
qed

lemma frame_then_lines:
  "js_split [nl] (f @ [nl, nl] @ rest) = js_split [nl] f @ [] # js_split [nl] rest"
proof -
  let ?l = "last (js_split [nl] f)"
  have "nl \<notin> set ?l"
    by (rule no_newline_in_piece) (rule js_split_last_fixed)
  then have "js_split [nl] (?l @ nl # nl # rest) = ?l # js_split [nl] (nl # rest)"
    by (rule js_split_line)
  moreover have "js_split [nl] (nl # rest) = [] # js_split [nl] rest"
    using js_split_line[of "[]" rest] by simp
  moreover have "js_split [nl] (f @ nl # nl # rest) =
      butlast (js_split [nl] f) @ js_split [nl] (?l @ nl # nl # rest)"
    by (rule js_split_append)
  ultimately have "js_split [nl] (f @ nl # nl # rest) =
      (butlast (js_split [nl] f) @ [?l]) @ [] # js_split [nl] rest"
    by simp
  then show ?thesis
    by (simp add: js_split_nonempty)
qed

lemma frames_then_lines:
  "js_split [nl] (frames_text fs @ rest) =
     concat (map (\<lambda>f. js_split [nl] f @ [[]]) fs) @ js_split [nl] rest"
proof (induction fs)
  case Nil
  then show ?case by (simp add: frames_text_def)
next
  case (Cons f fs)
  have "frames_text (f # fs) @ rest = f @ [nl, nl] @ (frames_text fs @ rest)"
    by (simp add: frames_text_def)
  then show ?case
    using Cons frame_then_lines[of f "frames_text fs @ rest"] by simp
qed

lemma streamMessage_lines_blank:
  "streamMessage_lines parse t ([] # ls) = streamMessage_lines parse t ls"
  by simp

lemma streamMessage_frames:
  "one_event_each parse t fs \<Longrightarrow>
   fst (streamMessage_lines parse t (concat (map (\<lambda>f. js_split [nl] f @ [[]]) fs))) =
     frames_events parse t fs"
proof (induction fs arbitrary: t)
  case Nil
  then show ?case by simp
next
  case (Cons f fs)
  let ?ls = "js_split [nl] f"
  let ?R = "concat (map (\<lambda>f. js_split [nl] f @ [[]]) fs)"
  let ?e = "\<lambda>i. \<lparr>ev_type = type_after t (take i ?ls), ev_data = the (parse (drop 6 (?ls ! i)))\<rparr>"
  have one: "length (yielding_lines parse t ?ls) = 1"
    and rest: "one_event_each parse (type_after t ?ls) fs"
    using Cons.prems by simp_all
  obtain i where i: "yielding_lines parse t ?ls = [i]"
    using one by (cases "yielding_lines parse t ?ls") auto
  have "fst (streamMessage_lines parse t (?ls @ [] # ?R)) =
      fst (streamMessage_lines parse t ?ls)
      @ fst (streamMessage_lines parse (type_after t ?ls) ([] # ?R))"
    by (simp only: streamMessage_lines_append fst_conv streamMessage_lines_type_after)
  also have "\<dots> = [?e i] @ fst (streamMessage_lines parse (type_after t ?ls) ?R)"
    by (simp only: streamMessage_lines_yielding i streamMessage_lines_blank list.map)
  also have "\<dots> = [?e i] @ frames_events parse (type_after t ?ls) fs"
    by (simp only: Cons.IH[OF rest])
  finally show ?case
    by (simp add: i Let_def)
qed

lemma length_frames_events: "length (frames_events parse t fs) = length fs"
  by (induction fs arbitrary: t) (simp_all add: Let_def)

text \<open>
  C8, as stated, fails for frames that are valid on the wire but carry no \<open>data:\<close> line or
  more than one: of the two frames given to \<open>MessagesAPI.stream\<close> the first yields nothing,
  and \<open>streamMessage\<close> yields two events for the one frame with two \<open>data: \<close> lines.
\<close>

theorem frames_and_events_counterexample:
  \<open>stream utf8 parse_examples
      (ok_response [''event: message.start\<newline>\<newline>event: content\<newline>data: {}\<newline>\<newline>''])
     = Inr [\<lparr>ev_type = ''content'', ev_data = JObj []\<rparr>]
   \<and> streamMessage utf8 parse_examples
      (ok_response [''event: content\<newline>data: {}\<newline>data: {}\<newline>\<newline>''])
     = Inr [\<lparr>ev_type = ''content'', ev_data = JObj []\<rparr>, \<lparr>ev_type = ''content'', ev_data = JObj []\<rparr>]\<close>
  by code_simp

text \<open>
  C8, amended. When the transport closes after \<open>N\<close> complete frames: \<open>MessagesAPI.stream\<close>
  yields exactly one event for each frame, in order, and ends without an error, provided
  that every frame has at least one \<open>data:\<close> line and none has the type \<open>done\<close>;
  \<open>streamMessage\<close> does so provided that every frame has exactly one \<open>data: \<close> line whose
  text parses and that stands under a type that is not empty, set by an \<open>event: \<close> line
  before it in the frame or in an earlier frame, whatever other lines the frames have.
\<close>

theorem clean_end_yields_every_frame:
  assumes "ok resp" and "body resp = Some cs"
    and "\<forall>f\<in>set fs. is_frame f \<and> data_lines f \<noteq> [] \<and> frame_type f \<noteq> Some ''done''"
    and "reader_text dec cs = frames_text fs"
    and "\<forall>f\<in>set gs. is_frame f" and "one_event_each parse [] gs"
    and "decoded_text dec bs = frames_text gs"
  shows "stream dec parse resp =
     Inr (map (\<lambda>f. \<lparr>ev_type = or_content (frame_type f),
                      ev_data = (case parse (data_text f) of
                                   Some v \<Rightarrow> v
                                 | None \<Rightarrow> JObj [(''raw'', JStr (data_text f))])\<rparr>) fs)
   \<and> length (projr (stream dec parse resp)) = length fs
   \<and> streamMessage dec parse (resp\<lparr>body := Some bs\<rparr>) = Inr (frames_events parse [] gs)
   \<and> length (projr (streamMessage dec parse (resp\<lparr>body := Some bs\<rparr>))) = length gs"
proof -
  have "butlast (js_split [nl, nl] (reader_text dec cs)) = fs"
    using assms(3,4) butlast_js_split_frames[of fs "[]"] by (simp add: js_split_Nil)
  moreover have "\<forall>f\<in>set fs. data_lines f \<noteq> [] \<and> frame_type f \<noteq> Some ''done''"
    using assms(3) by blast
  ultimately have a: "stream dec parse resp =
     Inr (map (\<lambda>f. \<lparr>ev_type = or_content (frame_type f),
                      ev_data = (case parse (data_text f) of
                                   Some v \<Rightarrow> v
                                 | None \<Rightarrow> JObj [(''raw'', JStr (data_text f))])\<rparr>) fs)"
    using assms(1,2) by (simp add: stream_whole run_frames_all)
  have "stream_lines dec bs = concat (map (\<lambda>f. js_split [nl] f @ [[]]) gs)"
    using frames_then_lines[of gs "[]"] assms(7)
    by (simp add: stream_lines_def js_split_Nil butlast_append)
  then have b: "streamMessage dec parse (resp\<lparr>body := Some bs\<rparr>) = Inr (frames_events parse [] gs)"
    using assms(1) streamMessage_frames[OF assms(6)]
    by (simp add: streamMessage_whole_upd)
  show ?thesis
    unfolding a b by (simp add: length_frames_events)
qed

theorem clean_end_yields_every_frame_witness:
  \<open>ok (ok_response [''event: message.start\<newline>data: {}\<newline>'', ''\<newline>event: content\<newline>data: {"text":"chunk1"}\<newline>\<newline>''])
   \<and> body (ok_response [''event: message.start\<newline>data: {}\<newline>'', ''\<newline>event: content\<newline>data: {"text":"chunk1"}\<newline>\<newline>''])
       = Some [''event: message.start\<newline>data: {}\<newline>'', ''\<newline>event: content\<newline>data: {"text":"chunk1"}\<newline>\<newline>'']
   \<and> is_frame ''event: message.start\<newline>data: {}''
   \<and> data_lines ''event: message.start\<newline>data: {}'' \<noteq> []
   \<and> frame_type ''event: message.start\<newline>data: {}'' \<noteq> Some ''done''
   \<and> is_frame ''event: content\<newline>data: {"text":"chunk1"}''
   \<and> data_lines ''event: content\<newline>data: {"text":"chunk1"}'' \<noteq> []
   \<and> frame_type ''event: content\<newline>data: {"text":"chunk1"}'' \<noteq> Some ''done''
   \<and> reader_text utf8 [''event: message.start\<newline>data: {}\<newline>'', ''\<newline>event: content\<newline>data: {"text":"chunk1"}\<newline>\<newline>'']
       = frames_text [''event: message.start\<newline>data: {}'', ''event: content\<newline>data: {"text":"chunk1"}'']
   \<and> is_frame ''id: 7\<newline>event: content\<newline>data: {}''
   \<and> is_frame '': ping\<newline>data: {"text":"chunk1"}\<newline>retry: 3''
   \<and> one_event_each parse_examples []
        [''id: 7\<newline>event: content\<newline>data: {}'', '': ping\<newline>data: {"text":"chunk1"}\<newline>retry: 3'']
   \<and> decoded_text utf8 [''id: 7\<newline>event: content\<newline>data: {}\<newline>\<newline>: pi'', ''ng\<newline>data: {"text":"chunk1"}\<newline>retry: 3\<newline>\<newline>'']
       = frames_text [''id: 7\<newline>event: content\<newline>data: {}'', '': ping\<newline>data: {"text":"chunk1"}\<newline>retry: 3'']
   \<and> stream utf8 parse_examples (ok_response [''event: message.start\<newline>data: {}\<newline>'', ''\<newline>event: content\<newline>data: {"text":"chunk1"}\<newline>\<newline>''])
       = Inr [\<lparr>ev_type = ''message.start'', ev_data = JObj []\<rparr>,
              \<lparr>ev_type = ''content'', ev_data = JObj [(''text'', JStr ''chunk1'')]\<rparr>]
   \<and> length (projr (stream utf8 parse_examples (ok_response [''event: message.start\<newline>data: {}\<newline>'', ''\<newline>event: content\<newline>data: {"text":"chunk1"}\<newline>\<newline>''])))
       = length [''event: message.start\<newline>data: {}'', ''event: content\<newline>data: {"text":"chunk1"}'']
   \<and> streamMessage utf8 parse_examples (ok_response [''id: 7\<newline>event: content\<newline>data: {}\<newline>\<newline>: pi'', ''ng\<newline>data: {"text":"chunk1"}\<newline>retry: 3\<newline>\<newline>''])
       = Inr [\<lparr>ev_type = ''content'', ev_data = JObj []\<rparr>,
              \<lparr>ev_type = ''content'', ev_data = JObj [(''text'', JStr ''chunk1'')]\<rparr>]
   \<and> length (projr (streamMessage utf8 parse_examples (ok_response [''id: 7\<newline>event: content\<newline>data: {}\<newline>\<newline>: pi'', ''ng\<newline>data: {"text":"chunk1"}\<newline>retry: 3\<newline>\<newline>''])))
       = length [''id: 7\<newline>event: content\<newline>data: {}'', '': ping\<newline>data: {"text":"chunk1"}\<newline>retry: 3'']\<close>
proof -
  let ?cs = \<open>[''event: message.start\<newline>data: {}\<newline>'', ''\<newline>event: content\<newline>data: {"text":"chunk1"}\<newline>\<newline>'']\<close>
  let ?f1 = \<open>''event: message.start\<newline>data: {}''\<close>
  let ?f2 = \<open>''event: content\<newline>data: {"text":"chunk1"}''\<close>
  let ?bs = \<open>[''id: 7\<newline>event: content\<newline>data: {}\<newline>\<newline>: pi'', ''ng\<newline>data: {"text":"chunk1"}\<newline>retry: 3\<newline>\<newline>'']\<close>
  let ?g1 = \<open>''id: 7\<newline>event: content\<newline>data: {}''\<close>
  let ?g2 = \<open>'': ping\<newline>data: {"text":"chunk1"}\<newline>retry: 3''\<close>
  have h1: "ok (ok_response ?cs)" and h2: "body (ok_response ?cs) = Some ?cs"
    by (simp_all add: ok_response_def)
  have f1a: "is_frame ?f1" and f2a: "is_frame ?f2" and g1a: "is_frame ?g1" and g2a: "is_frame ?g2"
    by (simp_all add: nl_def)
  have f1b: "data_lines ?f1 \<noteq> []" and f1c: "frame_type ?f1 \<noteq> Some ''done''"
    and f2b: "data_lines ?f2 \<noteq> []" and f2c: "frame_type ?f2 \<noteq> Some ''done''"
    by code_simp+
  have h3: "\<forall>f\<in>set [?f1, ?f2]. is_frame f \<and> data_lines f \<noteq> [] \<and> frame_type f \<noteq> Some ''done''"
    using f1a f1b f1c f2a f2b f2c by (simp only: list.set ball_simps simp_thms)
  have h4: "reader_text utf8 ?cs = frames_text [?f1, ?f2]"
    by code_simp
  have h5: "\<forall>f\<in>set [?g1, ?g2]. is_frame f"
    using g1a g2a by (simp only: list.set ball_simps simp_thms)
  have h6: "one_event_each parse_examples [] [?g1, ?g2]"
    by code_simp
  have h7: "decoded_text utf8 ?bs = frames_text [?g1, ?g2]"
    by code_simp
  note c = clean_end_yields_every_frame[OF h1 h2 h3 h4 h5 h6 h7]
  have u: "(ok_response ?cs)\<lparr>body := Some ?bs\<rparr> = ok_response ?bs"
    by (simp add: ok_response_def)
  have v1: "map (\<lambda>f. \<lparr>ev_type = or_content (frame_type f),
                      ev_data = (case parse_examples (data_text f) of
                                   Some v \<Rightarrow> v
                                 | None \<Rightarrow> JObj [(''raw'', JStr (data_text f))])\<rparr>) [?f1, ?f2]
       = [\<lparr>ev_type = ''message.start'', ev_data = JObj []\<rparr>,
          \<lparr>ev_type = ''content'', ev_data = JObj [(''text'', JStr ''chunk1'')]\<rparr>]"
    by code_simp
  have v2: "frames_events parse_examples [] [?g1, ?g2]
       = [\<lparr>ev_type = ''content'', ev_data = JObj []\<rparr>,
          \<lparr>ev_type = ''content'', ev_data = JObj [(''text'', JStr ''chunk1'')]\<rparr>]"
    by code_simp
  have c1: "stream utf8 parse_examples (ok_response ?cs)
       = Inr [\<lparr>ev_type = ''message.start'', ev_data = JObj []\<rparr>,
              \<lparr>ev_type = ''content'', ev_data = JObj [(''text'', JStr ''chunk1'')]\<rparr>]"
    using c[THEN conjunct1] by (simp only: v1)
  have c2: "length (projr (stream utf8 parse_examples (ok_response ?cs))) = length [?f1, ?f2]"
    using c[THEN conjunct2, THEN conjunct1] .
  have c3: "streamMessage utf8 parse_examples (ok_response ?bs)
       = Inr [\<lparr>ev_type = ''content'', ev_data = JObj []\<rparr>,
              \<lparr>ev_type = ''content'', ev_data = JObj [(''text'', JStr ''chunk1'')]\<rparr>]"
    using c[THEN conjunct2, THEN conjunct2, THEN conjunct1] by (simp only: v2 u)
  have c4: "length (projr (streamMessage utf8 parse_examples (ok_response ?bs))) = length [?g1, ?g2]"
    using c[THEN conjunct2, THEN conjunct2, THEN conjunct2] by (simp only: u)
  show ?thesis
    by (intro conjI h1 h2 f1a f1b f1c f2a f2b f2c h4 g1a g2a h6 h7 c1 c2 c3 c4)
qed

end
